theory Spec2Isabelle
  imports Complex_Main "HOL-Library.Multiset" "HOL-Library.Sublist"
begin

section \<open>Data model of src/src/App.jsx\<close>

text \<open>
  A row object of the table. JavaScript numbers are modelled as exact rationals, and
  an absent (\<open>undefined\<close>) score as \<open>None\<close>. Row objects live in a heap, a list of
  rows addressed by position, because the code copies rows, links the copies through
  their \<open>children\<close> arrays and writes the scores into the copies: \<open>children\<close> holds
  the addresses of the child objects.
\<close>

type_synonym addr = nat

record row =
  CID :: string
  Criterion :: string
  Calculated_Weights :: rat
  Score :: "rat option"
  maturities :: "string list"
  selectedMaturityIndex :: int
  children :: "addr list"

type_synonym heap = "row list"

datatype js_error = TypeError | SyntaxError | Error string

subsection \<open>Strings\<close>

text \<open>\<open>s.lastIndexOf(c)\<close>: the last position of \<open>c\<close> in \<open>s\<close>, or \<open>-1\<close>.\<close>

definition lastIndexOf :: "string \<Rightarrow> char \<Rightarrow> int" where
  "lastIndexOf s c =
     (case filter (\<lambda>i. s ! i = c) (rev [0..<length s]) of
        [] \<Rightarrow> -1
      | i # _ \<Rightarrow> int i)"

text \<open>\<open>s.substring(0, n)\<close> for \<open>0 \<le> n\<close>.\<close>

definition substring0 :: "string \<Rightarrow> int \<Rightarrow> string" where
  "substring0 s n = take (nat n) s"

subsection \<open>The lookup object \<open>nodeMap = {}\<close>\<close>

text \<open>
  \<open>nodeMap\<close> is a plain object literal, so a read \<open>nodeMap[k]\<close> that finds no own
  property goes on to the prototype chain, and the write \<open>nodeMap['__proto__'] = d\<close>
  runs the inherited setter, which makes \<open>d\<close> the prototype of \<open>nodeMap\<close> instead of
  storing a property. The model keeps the own properties as an association list (the
  latest write first) and the prototype as an optional row address (\<open>None\<close>:
  \<open>Object.prototype\<close>).
\<close>

record nodeMap =
  own :: "(string \<times> addr) list"
  proto :: "addr option"

text \<open>What a read of \<open>nodeMap[k]\<close> yields, as far as the code looks at it: a row
  object, some other truthy value (which has no \<open>children\<close> property), or a falsy one.\<close>

datatype jsvalue = Object addr | Truthy | Falsy

definition truthy :: "bool \<Rightarrow> jsvalue" where
  "truthy b = (if b then Truthy else Falsy)"

definition Object_prototype_keys :: "string list" where
  "Object_prototype_keys =
     [''constructor'', ''hasOwnProperty'', ''isPrototypeOf'', ''propertyIsEnumerable'',
      ''toLocaleString'', ''toString'', ''valueOf'', ''__defineGetter__'',
      ''__defineSetter__'', ''__lookupGetter__'', ''__lookupSetter__'', ''__proto__'']"

definition Object_prototype :: "string \<Rightarrow> jsvalue" where
  "Object_prototype k = truthy (k \<in> set Object_prototype_keys)"

text \<open>The own properties of a row object, read as a property of \<open>nodeMap\<close>'s prototype.\<close>

definition row_property :: "row \<Rightarrow> string \<Rightarrow> jsvalue option" where
  "row_property r k =
     (if k = ''CID'' then Some (truthy (CID r \<noteq> []))
      else if k = ''Criterion'' then Some (truthy (Criterion r \<noteq> []))
      else if k = ''Calculated Weights'' then Some (truthy (Calculated_Weights r \<noteq> 0))
      else if k = ''Score'' then Some (truthy (Score r \<noteq> None \<and> Score r \<noteq> Some 0))
      else if k = ''maturities'' then Some Truthy
      else if k = ''selectedMaturityIndex'' then Some (truthy (selectedMaturityIndex r \<noteq> 0))
      else if k = ''children'' then Some Truthy
      else None)"

definition nodeMap_empty :: nodeMap where
  "nodeMap_empty = \<lparr>own = [], proto = None\<rparr>"

definition nodeMap_set :: "nodeMap \<Rightarrow> string \<Rightarrow> addr \<Rightarrow> nodeMap" where
  "nodeMap_set m k d =
     (if k = ''__proto__'' then m\<lparr>proto := Some d\<rparr> else m\<lparr>own := (k, d) # own m\<rparr>)"

definition nodeMap_get :: "heap \<Rightarrow> nodeMap \<Rightarrow> string \<Rightarrow> jsvalue" where
  "nodeMap_get h m k =
     (case map_of (own m) k of
        Some d \<Rightarrow> Object d
      | None \<Rightarrow>
         (case proto m of
            None \<Rightarrow> Object_prototype k
          | Some p \<Rightarrow>
             if k = ''__proto__'' then Object p
             else (case row_property (h ! p) k of
                     Some v \<Rightarrow> v
                   | None \<Rightarrow> Object_prototype k)))"

subsection \<open>naturalSort and Array.prototype.sort\<close>

text \<open>
  \<open>naturalSort\<close> hands both ids to the host's \<open>String.prototype.localeCompare\<close>
  (options \<open>numeric: true, sensitivity: 'base'\<close>); the collation is a parameter.
\<close>

definition naturalSort :: "(string \<Rightarrow> string \<Rightarrow> int) \<Rightarrow> row \<Rightarrow> row \<Rightarrow> int" where
  "naturalSort localeCompare a b = localeCompare (CID a) (CID b)"

text \<open>\<open>Array.prototype.sort\<close> with a comparator, which returns a number: a stable
  sort, here by insertion from the right.\<close>

fun insert_by :: "('a \<Rightarrow> 'a \<Rightarrow> 'b::{zero,ord}) \<Rightarrow> 'a \<Rightarrow> 'a list \<Rightarrow> 'a list" where
  "insert_by cmp x [] = [x]"
| "insert_by cmp x (y # ys) =
     (if cmp x y \<le> 0 then x # y # ys else y # insert_by cmp x ys)"

definition sort_by :: "('a \<Rightarrow> 'a \<Rightarrow> 'b::{zero,ord}) \<Rightarrow> 'a list \<Rightarrow> 'a list" where
  "sort_by cmp xs = foldr (insert_by cmp) xs []"

section \<open>calculateHierarchyScores\<close>

text \<open>\<open>flatData.map(d => ({...d, children: []}))\<close>: the copies are allocated at the
  end of the heap, in order.\<close>

definition copy_rows :: "heap \<Rightarrow> addr list \<Rightarrow> heap \<times> addr list" where
  "copy_rows h flatData =
     (h @ map (\<lambda>d. (h ! d)\<lparr>children := []\<rparr>) flatData,
      [length h ..< length h + length flatData])"

text \<open>\<open>processedData.forEach(d => nodeMap[d.CID] = d)\<close>\<close>

definition build_nodeMap :: "heap \<Rightarrow> addr list \<Rightarrow> nodeMap" where
  "build_nodeMap h processedData =
     fold (\<lambda>d m. nodeMap_set m (CID (h ! d)) d) processedData nodeMap_empty"

text \<open>
  The second \<open>forEach\<close>: each row is pushed onto its parent's \<open>children\<close> or onto
  \<open>rootChildren\<close>. \<open>nodeMap[parentCid].children.push(d)\<close> throws a TypeError when
  \<open>nodeMap[parentCid]\<close> is truthy but has no \<open>children\<close>; the error comes with the
  heap as it is then.
\<close>

fun link_rows ::
  "nodeMap \<Rightarrow> addr list \<Rightarrow> heap \<times> addr list \<Rightarrow> js_error \<times> heap + heap \<times> addr list" where
  "link_rows m [] (h, rootChildren) = Inr (h, rootChildren)"
| "link_rows m (d # ds) (h, rootChildren) =
     (let lastDot = lastIndexOf (CID (h ! d)) (CHR ''.'') in
      if lastDot > -1 then
        (let parentCid = substring0 (CID (h ! d)) lastDot in
         case nodeMap_get h m parentCid of
           Object p \<Rightarrow>
             link_rows m ds (h[p := (h ! p)\<lparr>children := children (h ! p) @ [d]\<rparr>], rootChildren)
         | Truthy \<Rightarrow> Inl (TypeError, h)
         | Falsy \<Rightarrow> link_rows m ds (h, rootChildren @ [d]))
      else link_rows m ds (h, rootChildren @ [d]))"

text \<open>
  \<open>calculateScore\<close>, with the \<open>forEach\<close> over the node's children. The recursion
  follows the object graph, so it is given fuel: \<open>None\<close> means that the fuel ran out.
  The accumulator of the loop is the heap with \<open>weightedSum\<close> and \<open>weightTotal\<close>.
\<close>

fun calculateScore :: "nat \<Rightarrow> heap \<Rightarrow> addr \<Rightarrow> (heap \<times> rat option) option"
  and forEach_child :: "nat \<Rightarrow> addr list \<Rightarrow> heap \<times> rat \<times> rat \<Rightarrow> (heap \<times> rat \<times> rat) option"
where
  "calculateScore 0 h node = None"
| "calculateScore (Suc fuel) h node =
     (if children (h ! node) = [] then Some (h, Score (h ! node))
      else
        (case forEach_child fuel (children (h ! node)) (h, 0, 0) of
           None \<Rightarrow> None
         | Some (h', weightedSum, weightTotal) \<Rightarrow>
             Some (h'[node := (h' ! node)\<lparr>Score := Some weightedSum\<rparr>], Some weightedSum)))"
| "forEach_child fuel [] acc = Some acc"
| "forEach_child fuel (child # rest) (h, weightedSum, weightTotal) =
     (case calculateScore fuel h child of
        None \<Rightarrow> None
      | Some (h', childScore) \<Rightarrow>
          (let childWeight = Calculated_Weights (h' ! child) in
           case childScore of
             Some s \<Rightarrow> forEach_child fuel rest (h', weightedSum + s * childWeight, weightTotal + childWeight)
           | None \<Rightarrow> forEach_child fuel rest (h', weightedSum, weightTotal)))"

text \<open>\<open>rootChildren.forEach(root => calculateScore(root))\<close>\<close>

fun forEach_root :: "nat \<Rightarrow> addr list \<Rightarrow> heap \<Rightarrow> heap option" where
  "forEach_root fuel [] h = Some h"
| "forEach_root fuel (rootNode # rest) h =
     (case calculateScore fuel h rootNode of
        None \<Rightarrow> None
      | Some (h', _) \<Rightarrow> forEach_root fuel rest h')"

text \<open>
  The whole function. It returns the heap after the call and the returned array (the
  addresses of the copies, sorted); \<open>Some (Inl (e, h'))\<close> is a thrown error with the
  heap it leaves, and \<open>None\<close> is running out of fuel.
\<close>

definition calculateHierarchyScores ::
  "(string \<Rightarrow> string \<Rightarrow> int) \<Rightarrow> nat \<Rightarrow> heap \<Rightarrow> addr list
     \<Rightarrow> (js_error \<times> heap + heap \<times> addr list) option" where
  "calculateHierarchyScores localeCompare fuel h flatData =
     (let (h1, processedData) = copy_rows h flatData;
          m = build_nodeMap h1 processedData
      in case link_rows m processedData (h1, []) of
           Inl thrown \<Rightarrow> Some (Inl thrown)
         | Inr (h2, rootChildren) \<Rightarrow>
             (case forEach_root fuel rootChildren h2 of
                None \<Rightarrow> None
              | Some h3 \<Rightarrow>
                  Some (Inr (h3, sort_by (\<lambda>a b. naturalSort localeCompare (h3 ! a) (h3 ! b)) processedData))))"

section \<open>Properties of the rebuilt hierarchy\<close>

text \<open>Two rows agree on the fields that \<open>calculateHierarchyScores\<close> only copies.\<close>

definition same_frame :: "row \<Rightarrow> row \<Rightarrow> bool" where
  "same_frame r r' \<longleftrightarrow>
     CID r' = CID r \<and> Criterion r' = Criterion r \<and> Calculated_Weights r' = Calculated_Weights r \<and>
     maturities r' = maturities r \<and> selectedMaturityIndex r' = selectedMaturityIndex r"

text \<open>\<open>h'\<close> comes from \<open>h\<close> by writing scores only, and only into objects at or
  above \<open>n0\<close> that have children.\<close>

definition only_scores :: "nat \<Rightarrow> heap \<Rightarrow> heap \<Rightarrow> bool" where
  "only_scores n0 h h' \<longleftrightarrow>
     length h' = length h \<and>
     (\<forall>a<length h. same_frame (h ! a) (h' ! a) \<and> children (h' ! a) = children (h ! a)) \<and>
     (\<forall>a<length h. a < n0 \<or> children (h ! a) = [] \<longrightarrow> h' ! a = h ! a)"

text \<open>Every child of an object at or above \<open>n0\<close> is such an object too, and its id
  has the id of the parent as a strict prefix.\<close>

definition linked :: "nat \<Rightarrow> heap \<Rightarrow> bool" where
  "linked n0 h \<longleftrightarrow>
     (\<forall>a. n0 \<le> a \<and> a < length h \<longrightarrow>
        (\<forall>c\<in>set (children (h ! a)). n0 \<le> c \<and> c < length h \<and> strict_prefix (CID (h ! a)) (CID (h ! c))))"

text \<open>Every row that \<open>nodeMap\<close> holds, as an own property or as its prototype, is in
  \<open>S\<close> and is held under its own id.\<close>

definition nodeMap_ok :: "heap \<Rightarrow> addr set \<Rightarrow> nodeMap \<Rightarrow> bool" where
  "nodeMap_ok h S m \<longleftrightarrow>
     (\<forall>k d. (k, d) \<in> set (own m) \<longrightarrow> d \<in> S \<and> CID (h ! d) = k) \<and>
     (\<forall>p. proto m = Some p \<longrightarrow> p \<in> S \<and> CID (h ! p) = ''__proto__'')"

text \<open>\<open>h'\<close> comes from \<open>h\<close> by changing \<open>children\<close> only, of objects at or above
  \<open>n0\<close>.\<close>

definition only_children :: "nat \<Rightarrow> heap \<Rightarrow> heap \<Rightarrow> bool" where
  "only_children n0 h h' \<longleftrightarrow>
     length h' = length h \<and>
     (\<forall>a<length h. same_frame (h ! a) (h' ! a) \<and> Score (h' ! a) = Score (h ! a)) \<and>
     (\<forall>a<length h. a < n0 \<longrightarrow> h' ! a = h ! a)"

text \<open>No id of an object at or above \<open>n0\<close> is longer than \<open>M\<close>.\<close>

definition cid_bounded :: "nat \<Rightarrow> nat \<Rightarrow> heap \<Rightarrow> bool" where
  "cid_bounded n0 M h \<longleftrightarrow> (\<forall>a. n0 \<le> a \<and> a < length h \<longrightarrow> length (CID (h ! a)) \<le> M)"

text \<open>The children relation among the returned rows: parent and child.\<close>

definition child_rel :: "heap \<Rightarrow> addr list \<Rightarrow> (addr \<times> addr) set" where
  "child_rel h out = {(a, c). a \<in> set out \<and> c \<in> set (children (h ! a))}"

text \<open>Examples: a parent with a scored and an unscored child (before and after the
  call), and rows with and without their parent.\<close>

definition example_row :: "string \<Rightarrow> rat \<Rightarrow> rat option \<Rightarrow> row" where
  "example_row cid w s =
     \<lparr>CID = cid, Criterion = [], Calculated_Weights = w, Score = s, maturities = [],
      selectedMaturityIndex = -1, children = []\<rparr>"

definition example_rollup :: heap where
  "example_rollup =
     [example_row ''1'' 1 None, example_row ''1.1'' (1/2) (Some 1), example_row ''1.2'' (1/2) None]"

definition example_rollup_after :: heap where
  "example_rollup_after =
     example_rollup @
       [(example_row ''1'' 1 (Some (1/2)))\<lparr>children := [4, 5]\<rparr>,
        example_row ''1.1'' (1/2) (Some 1), example_row ''1.2'' (1/2) None]"

definition example_orphan :: heap where
  "example_orphan =
     [example_row ''1'' 1 None, example_row ''1.1'' 1 (Some 1), example_row ''3.1'' 1 (Some 1)]"

section \<open>handleMaturityClick\<close>

text \<open>
  Strings are lists of code units below 256. \<open>trim\<close> removes the white space and line
  terminators of that range at both ends; \<open>toLowerCase\<close> maps the capital letters of
  that range to their small letters.
\<close>

definition isWhiteSpace :: "char \<Rightarrow> bool" where
  "isWhiteSpace c = (of_char c \<in> {9, 10, 11, 12, 13, 32, 160 :: nat})"

definition trim :: "string \<Rightarrow> string" where
  "trim s = rev (dropWhile isWhiteSpace (rev (dropWhile isWhiteSpace s)))"

definition toLowerCase_char :: "char \<Rightarrow> char" where
  "toLowerCase_char c =
     (let n = of_char c :: nat in
      if (65 \<le> n \<and> n \<le> 90) \<or> (192 \<le> n \<and> n \<le> 222 \<and> n \<noteq> 215) then char_of (n + 32) else c)"

definition toLowerCase :: "string \<Rightarrow> string" where
  "toLowerCase s = map toLowerCase_char s"

text \<open>\<open>String(arr[i])\<close> for an array of strings: a read out of range is \<open>undefined\<close>.\<close>

definition String_at :: "string list \<Rightarrow> int \<Rightarrow> string" where
  "String_at arr i = (if 0 \<le> i \<and> i < int (length arr) then arr ! nat i else ''undefined'')"

text \<open>The test of both the \<open>filter\<close> and the \<open>for\<close> loop:
  \<open>txt !== 'no' && txt !== ''\<close> for \<open>txt = String(m).trim().toLowerCase()\<close>.\<close>

definition is_value_option :: "string \<Rightarrow> bool" where
  "is_value_option m = (let txt = toLowerCase (trim m) in txt \<noteq> ''no'' \<and> txt \<noteq> [])"

text \<open>Lines 353 to 376: the value of \<open>newScore\<close> before the toggle.\<close>

definition newScore_of :: "string list \<Rightarrow> int \<Rightarrow> string \<Rightarrow> rat" where
  "newScore_of currentMaturities maturityIndex maturityText =
     (let isNo = (toLowerCase (trim maturityText) = ''no'') in
      if \<not> isNo then
        (let valueOptionCount = length (filter is_value_option currentMaturities);
             rank = fold (\<lambda>i rank. if is_value_option (String_at currentMaturities i)
                                   then rank + 1 else rank) [0..maturityIndex] (0::nat)
         in if valueOptionCount > 0 then of_nat rank / of_nat valueOptionCount else 0)
      else 0)"

text \<open>Lines 378 to 384: the toggle, written into the row object.\<close>

definition toggle_row :: "row \<Rightarrow> int \<Rightarrow> rat \<Rightarrow> row" where
  "toggle_row r maturityIndex newScore =
     (if selectedMaturityIndex r = maturityIndex
      then r\<lparr>Score := None, selectedMaturityIndex := -1\<rparr>
      else r\<lparr>Score := Some newScore, selectedMaturityIndex := maturityIndex\<rparr>)"

text \<open>
  The state of the \<open>App\<close> component: the heap of row objects and the state variables.
  A handler reads the state variables of the render it belongs to and the setters it
  calls give the next state.
\<close>

record app_state =
  objects :: heap
  data :: "addr list"
  maturityHeaders :: "string list"
  pasteModalOpen :: bool
  pasteText :: string
  errorMsg :: string

text \<open>
  \<open>handleMaturityClick\<close>. With \<open>rowIndex\<close> out of range \<open>row\<close> is \<open>undefined\<close> and
  reading its property throws. The row object is changed in place, before the hierarchy
  is recomputed; the result is the next state with the error thrown out of the handler,
  if any, and \<open>None\<close> when the fuel ran out.
\<close>

definition handleMaturityClick ::
  "(string \<Rightarrow> string \<Rightarrow> int) \<Rightarrow> nat \<Rightarrow> app_state \<Rightarrow> nat \<Rightarrow> int \<Rightarrow> nat \<Rightarrow> string
     \<Rightarrow> (app_state \<times> js_error option) option" where
  "handleMaturityClick localeCompare fuel st rowIndex maturityIndex totalMaturities maturityText =
     (if length (data st) \<le> rowIndex then Some (st, Some TypeError)
      else
        (let newData = data st;
             row = newData ! rowIndex;
             newScore = newScore_of (maturities (objects st ! row)) maturityIndex maturityText;
             h = (objects st)[row := toggle_row (objects st ! row) maturityIndex newScore]
         in case calculateHierarchyScores localeCompare fuel h newData of
              None \<Rightarrow> None
            | Some (Inl (e, h')) \<Rightarrow> Some (st\<lparr>objects := h'\<rparr>, Some e)
            | Some (Inr (h', recalculated)) \<Rightarrow>
                Some (st\<lparr>objects := h', data := recalculated\<rparr>, None)))"

text \<open>
  The rule of the MaturityRankResolver in the words of the specification: 0 for the
  sentinel, otherwise the rank of the clicked option among the valid options over the
  number of valid options, and 0 when there is no valid option.
\<close>

definition MaturityRankResolver :: "string list \<Rightarrow> nat \<Rightarrow> rat" where
  "MaturityRankResolver options clickedIndex =
     (if toLowerCase (trim (options ! clickedIndex)) = ''no'' then 0
      else
        (let validCount = length (filter is_value_option options);
             rank = length (filter is_value_option (take (clickedIndex + 1) options))
         in if validCount = 0 then 0 else of_nat rank / of_nat validCount))"

definition example_options :: "string list" where
  "example_options = [''Level 1'', ''Level 2'', '''', '''']"


definition example_leaf :: "rat option \<Rightarrow> int \<Rightarrow> row" where
  "example_leaf s sel =
     \<lparr>CID = ''1.1.1'', Criterion = ''Feature Set'', Calculated_Weights = 1/2, Score = s,
      maturities = example_options, selectedMaturityIndex = sel, children = []\<rparr>"

definition example_state :: "heap \<Rightarrow> addr list \<Rightarrow> app_state" where
  "example_state h d =
     \<lparr>objects = h, data = d, maturityHeaders = [''L1'', ''L2'', ''L3'', ''L4''],
      pasteModalOpen = False, pasteText = [], errorMsg = []\<rparr>"

text \<open>Example: the parent \<open>1\<close> with the children \<open>1.1\<close> (the second option
  selected) and \<open>1.2\<close> (the first option selected); the objects after a click on the
  selected option of \<open>1.2\<close>, and after a click on its second option.\<close>

definition example_family :: heap where
  "example_family =
     [example_row ''1'' 1 None, (example_leaf (Some 1) 1)\<lparr>CID := ''1.1''\<rparr>,
      (example_leaf (Some (1/2)) 0)\<lparr>CID := ''1.2''\<rparr>]"

definition example_family_after :: heap where
  "example_family_after =
     [example_row ''1'' 1 None, (example_leaf (Some 1) 1)\<lparr>CID := ''1.1''\<rparr>,
      (example_leaf None (-1))\<lparr>CID := ''1.2''\<rparr>,
      (example_row ''1'' 1 (Some (1/2)))\<lparr>children := [4, 5]\<rparr>,
      (example_leaf (Some 1) 1)\<lparr>CID := ''1.1''\<rparr>, (example_leaf None (-1))\<lparr>CID := ''1.2''\<rparr>]"

definition example_family_set :: heap where
  "example_family_set =
     [example_row ''1'' 1 None, (example_leaf (Some 1) 1)\<lparr>CID := ''1.1''\<rparr>,
      (example_leaf (Some 1) 1)\<lparr>CID := ''1.2''\<rparr>,
      (example_row ''1'' 1 (Some 1))\<lparr>children := [4, 5]\<rparr>,
      (example_leaf (Some 1) 1)\<lparr>CID := ''1.1''\<rparr>, (example_leaf (Some 1) 1)\<lparr>CID := ''1.2''\<rparr>]"

section \<open>SunburstChart: layout and zoom\<close>

text \<open>
  The chart links the rows below a synthetic root (\<open>rootData\<close>) and hands that tree to
  d3. \<open>datum\<close> holds the fields of a node's \<open>data\<close> that the layout reads or writes;
  \<open>dtree\<close> is \<open>rootData\<close> with the nodes below it.
\<close>

record datum =
  name :: string
  weight :: rat
  score :: "rat option"
  absoluteWeight :: rat

datatype dtree = DNode datum "dtree list"

text \<open>A node of the d3 hierarchy: its own fields and its children (in d3 a node without
  children has no \<open>children\<close> property; here its list is empty).\<close>

record node_fields =
  node_data :: datum
  node_value :: rat
  depth :: nat
  x0 :: rat
  x1 :: rat
  y0 :: rat
  y1 :: rat

datatype hnode = Node (fields_of: node_fields) (node_children: "hnode list")

text \<open>
  Modelled from the spec: \<open>d3.hierarchy\<close>, \<open>node.sum\<close>, \<open>node.sort\<close> and
  \<open>d3.partition\<close> are the d3 library's, which is not under src/. The specification
  (4.5) has the layout give each leaf its value, each inner node the sum of the values
  below it, and partition the span of a node among its children in proportion to their
  values, recursively, the band of a node being its depth. The definitions follow d3's
  algorithm for that: \<open>hierarchy\<close> records the depth, \<open>sum_values\<close> is \<open>node.sum\<close>
  with the accessor of line 102, \<open>sort_nodes\<close> is \<open>node.sort\<close> with the comparator of
  line 103, and \<open>partition\<close> is \<open>d3.partition()\<close> with its default size \<open>[1, 1]\<close>
  and no padding; the scale \<open>x\<close> takes the unit interval to \<open>[0, 2\<pi>]\<close>.
\<close>

fun hierarchy :: "nat \<Rightarrow> dtree \<Rightarrow> hnode" where
  "hierarchy dep (DNode d cs) =
     Node \<lparr>node_data = d, node_value = 0, depth = dep, x0 = 0, x1 = 0, y0 = 0, y1 = 0\<rparr>
          (map (hierarchy (dep + 1)) cs)"

fun height :: "hnode \<Rightarrow> nat" where
  "height (Node f ks) = foldr max (map (\<lambda>k. height k + 1) ks) 0"

text \<open>Lines 95 to 100: \<open>absoluteWeight\<close> is 1 at the root and the parent's times the
  node's weight below it.\<close>

fun absoluteWeights :: "rat \<Rightarrow> hnode \<Rightarrow> hnode" where
  "absoluteWeights aw (Node f ks) =
     Node (f\<lparr>node_data := (node_data f)\<lparr>absoluteWeight := aw\<rparr>\<rparr>)
          (map (\<lambda>k. absoluteWeights (aw * weight (node_data (fields_of k))) k) ks)"

text \<open>Line 102: \<open>hierarchy.sum(d => (d.children && d.children.length) ? 0 : d.absoluteWeight)\<close>\<close>

fun sum_values :: "hnode \<Rightarrow> hnode" where
  "sum_values (Node f ks) =
     (let ks' = map sum_values ks in
      Node (f\<lparr>node_value := (if ks = [] then absoluteWeight (node_data f) else 0)
                               + sum_list (map (\<lambda>k. node_value (fields_of k)) ks')\<rparr>) ks')"

text \<open>Line 103: \<open>hierarchy.sort((a, b) => b.value - a.value)\<close> sorts the children of
  every node; the comparator reads the values only, which sorting does not change.\<close>

fun sort_nodes :: "hnode \<Rightarrow> hnode" where
  "sort_nodes (Node f ks) =
     Node f (sort_by (\<lambda>a b. node_value (fields_of b) - node_value (fields_of a)) (map sort_nodes ks))"

text \<open>
  \<open>d3.partition\<close>: \<open>positionNode\<close> lays the children of a node out with
  \<open>treemapDice\<close>, one after the other from the node's \<open>x0\<close>, each as wide as its value
  times \<open>k = parent.value && (x1 - x0) / parent.value\<close> (\<open>dice_factor\<close>), in the band
  below the node's;
  then it corrects a node whose \<open>x1\<close> is below its \<open>x0\<close>. \<open>n\<close> is the number of bands.
\<close>

definition dice_factor :: "node_fields \<Rightarrow> rat" where
  "dice_factor f = (if node_value f = 0 then 0 else (x1 f - x0 f) / node_value f)"

fun positionNode :: "nat \<Rightarrow> hnode \<Rightarrow> hnode"
  and treemapDice :: "nat \<Rightarrow> rat \<Rightarrow> rat \<Rightarrow> rat \<Rightarrow> rat \<Rightarrow> hnode list \<Rightarrow> hnode list"
where
  "positionNode n (Node f ks) =
     (let k = dice_factor f;
          ks' = treemapDice n k (x0 f) (of_nat (depth f + 1) / of_nat n) (of_nat (depth f + 2) / of_nat n) ks;
          f' = (if x1 f < x0 f then f\<lparr>x0 := (x0 f + x1 f) / 2, x1 := (x0 f + x1 f) / 2\<rparr> else f);
          f'' = (if y1 f' < y0 f' then f'\<lparr>y0 := (y0 f' + y1 f') / 2, y1 := (y0 f' + y1 f') / 2\<rparr> else f')
      in Node f'' ks')"
| "treemapDice n k x ya yb [] = []"
| "treemapDice n k x ya yb (Node f ks # rest) =
     positionNode n (Node (f\<lparr>x0 := x, x1 := x + node_value f * k, y0 := ya, y1 := yb\<rparr>) ks)
       # treemapDice n k (x + node_value f * k) ya yb rest"

definition partition :: "hnode \<Rightarrow> hnode" where
  "partition r =
     (let n = height r + 1 in
      positionNode n (Node ((fields_of r)\<lparr>x0 := 0, y0 := 0, x1 := 1, y1 := 1 / of_nat n\<rparr>) (node_children r)))"

text \<open>Lines 92 to 123: the laid-out root, from \<open>rootData\<close>.\<close>

definition layout :: "dtree \<Rightarrow> hnode" where
  "layout rootData = partition (sort_nodes (sum_values (absoluteWeights 1 (hierarchy 0 rootData))))"

text \<open>
  The zoom. A node is referred to by its path from the root, the positions of the
  children to follow. \<open>click(event, p)\<close> zooms to \<open>p\<close> when \<open>p\<close> has children and to
  its parent, or the root when it has none, otherwise; the state of the zoom is the
  target of the last click, to whose span the scales are set.
\<close>

type_synonym path = "nat list"

fun node_at :: "hnode \<Rightarrow> path \<Rightarrow> hnode option" where
  "node_at r [] = Some r"
| "node_at r (i # p) =
     (if i < length (node_children r) then node_at (node_children r ! i) p else None)"

record zoom =
  focus :: path

definition click :: "hnode \<Rightarrow> zoom \<Rightarrow> path \<Rightarrow> zoom option" where
  "click r z p =
     (case node_at r p of
        None \<Rightarrow> None
      | Some node \<Rightarrow>
          Some (z\<lparr>focus := (if node_children node \<noteq> [] then p
                               else if p \<noteq> [] then butlast p else [])\<rparr>))"

text \<open>Line 176: \<open>.on("click", (event) => click(event, root))\<close>\<close>

definition centerText_click :: "hnode \<Rightarrow> zoom \<Rightarrow> zoom option" where
  "centerText_click r z = click r z []"

text \<open>Line 197: \<open>path.on("click", click)\<close>, on the arc of the node at \<open>p\<close>.\<close>

definition path_click :: "hnode \<Rightarrow> zoom \<Rightarrow> path \<Rightarrow> zoom option" where
  "path_click r z p = click r z p"

definition example_datum :: "string \<Rightarrow> rat \<Rightarrow> datum" where
  "example_datum n w = \<lparr>name = n, weight = w, score = None, absoluteWeight = 0\<rparr>"

definition example_rootData :: dtree where
  "example_rootData =
     DNode (example_datum ''root'' 0)
       [DNode (example_datum ''1'' (3/10))
          [DNode (example_datum ''1.1'' 1) [DNode (example_datum ''1.1.1'' 1) []]],
        DNode (example_datum ''2'' (7/10)) []]"


text \<open>Predicates on a laid-out hierarchy. \<open>leaf_sum\<close> is the sum of the values
  (\<open>absoluteWeight\<close>) of the leaves below a node.\<close>

fun datum_of :: "dtree \<Rightarrow> datum" where
  "datum_of (DNode d cs) = d"

fun nonneg_weights :: "dtree \<Rightarrow> bool" where
  "nonneg_weights (DNode d cs) = (\<forall>c\<in>set cs. 0 \<le> weight (datum_of c) \<and> nonneg_weights c)"

fun leaf_sum :: "hnode \<Rightarrow> rat" where
  "leaf_sum (Node f ks) =
     (if ks = [] then absoluteWeight (node_data f) else sum_list (map leaf_sum ks))"

fun valued :: "hnode \<Rightarrow> bool" where
  "valued (Node f ks) =
     (node_value f = leaf_sum (Node f ks) \<and> 0 \<le> node_value f \<and> (\<forall>k\<in>set ks. valued k))"

fun descending :: "hnode \<Rightarrow> bool" where
  "descending (Node f ks) =
     (sorted_wrt (\<lambda>a b. node_value (fields_of a) \<ge> node_value (fields_of b)) ks
      \<and> (\<forall>k\<in>set ks. descending k))"

fun spans_from :: "rat \<Rightarrow> rat \<Rightarrow> hnode list \<Rightarrow> bool" where
  "spans_from x k [] = True"
| "spans_from x k (c # cs) =
     (x0 (fields_of c) = x \<and> x1 (fields_of c) = x + node_value (fields_of c) * k
      \<and> spans_from (x + node_value (fields_of c) * k) k cs)"

fun spanned :: "hnode \<Rightarrow> bool" where
  "spanned (Node f ks) =
     (spans_from (x0 f) (dice_factor f) ks
      \<and> (\<forall>k\<in>set ks. spanned k))"

fun nonneg_w :: "hnode \<Rightarrow> bool" where
  "nonneg_w (Node f ks) = (\<forall>k\<in>set ks. 0 \<le> weight (node_data (fields_of k)) \<and> nonneg_w k)"

fun nonneg_aw :: "hnode \<Rightarrow> bool" where
  "nonneg_aw (Node f ks) = (0 \<le> absoluteWeight (node_data f) \<and> (\<forall>k\<in>set ks. nonneg_aw k))"

fun dtree_children :: "dtree \<Rightarrow> dtree list" where
  "dtree_children (DNode d cs) = cs"

text \<open>
  \<open>arranges aw dep t n\<close>: the node \<open>n\<close> of the hierarchy is the node \<open>t\<close> of
  \<open>rootData\<close>. It carries the name, the weight and the score of \<open>t\<close>, the absolute
  weight \<open>aw\<close> and the depth \<open>dep\<close>, and its children are the children of \<open>t\<close>, each
  exactly once, in some order, every one with the absolute weight \<open>aw\<close> times its own
  weight, one level down.
\<close>

fun arranges :: "rat \<Rightarrow> nat \<Rightarrow> dtree \<Rightarrow> hnode \<Rightarrow> bool" where
  "arranges aw dep (DNode d cs) (Node f ks) =
     (name (node_data f) = name d \<and> weight (node_data f) = weight d \<and> score (node_data f) = score d
      \<and> absoluteWeight (node_data f) = aw \<and> depth f = dep
      \<and> (\<exists>cs'. mset cs' = mset cs
           \<and> list_all2 (\<lambda>c k. arranges (aw * weight (datum_of c)) (dep + 1) c k) cs' ks))"

section \<open>Import: processRawData, handlePaste, loadJson\<close>

text \<open>
  The functions of the host that the import calls are parameters: the collation of
  \<open>localeCompare\<close>, d3's two parsers, \<open>JSON.parse\<close> and \<open>parseFloat\<close> (\<open>None\<close> is
  \<open>NaN\<close>). A parser returns its result or throws. The result of d3's parsers is the
  list of the column names with one association of column name and text per line; the
  result of \<open>JSON.parse\<close> is given by the cases that \<open>loadJson\<close> tells apart, with
  rows of the shape of the table's rows.
\<close>

record parsed =
  columns :: "string list"
  lines :: "(string \<times> string) list list"

datatype json_import =
    JArray "row list"
  | JWrapped "row list" "string list"
  | JNull
  | JOther

record host =
  host_localeCompare :: "string \<Rightarrow> string \<Rightarrow> int"
  d3_csvParse :: "string \<Rightarrow> js_error + parsed"
  d3_tsvParse :: "string \<Rightarrow> js_error + parsed"
  JSON_parse :: "string \<Rightarrow> js_error + json_import"
  parseFloat :: "string \<Rightarrow> rat option"

text \<open>\<open>parsePercentage\<close>, for a text or \<open>undefined\<close>. \<open>replace('%', '')\<close> removes the
  first percent sign.\<close>

definition parsePercentage :: "(string \<Rightarrow> rat option) \<Rightarrow> string option \<Rightarrow> rat" where
  "parsePercentage parseFloat_fn v =
     (case v of
        None \<Rightarrow> 0
      | Some s \<Rightarrow>
          (let sValue = trim (remove1 (CHR ''%'') s) in
           if sValue = [] then 0
           else (case parseFloat_fn sValue of
                   None \<Rightarrow> 0
                 | Some num \<Rightarrow> if num > 1 then num / 100 else num)))"

text \<open>\<open>a || b\<close> for texts that may be \<open>undefined\<close>: the empty text is falsy.\<close>

definition js_or :: "string option \<Rightarrow> string option \<Rightarrow> string option" where
  "js_or a b = (case a of Some s \<Rightarrow> if s \<noteq> [] then Some s else b | None \<Rightarrow> b)"

definition nth_opt :: "'a list \<Rightarrow> nat \<Rightarrow> 'a option" where
  "nth_opt xs i = (if i < length xs then Some (xs ! i) else None)"

text \<open>\<open>d[key]\<close>: the key \<open>undefined\<close> reads the property named \<open>undefined\<close>.\<close>

definition field :: "(string \<times> string) list \<Rightarrow> string option \<Rightarrow> string option" where
  "field d key = map_of d (case key of Some k \<Rightarrow> k | None \<Rightarrow> ''undefined'')"

definition findCol :: "string list \<Rightarrow> string list \<Rightarrow> string option" where
  "findCol cols terms = find (\<lambda>c. trim (toLowerCase c) \<in> set terms) cols"

text \<open>The rows that \<open>processRawData\<close> makes of the parsed lines. d3 gives every line
  a text for every column, so a maturity that is missing is taken as the empty text.\<close>

definition format_rows :: "(string \<Rightarrow> rat option) \<Rightarrow> parsed \<Rightarrow> string list \<times> row list" where
  "format_rows parseFloat_fn parsedData =
     (let cols = columns parsedData;
          cidCol = js_or (findCol cols [''cid'', ''id'']) (nth_opt cols 0);
          critCol = js_or (findCol cols [''criterion'', ''criteria'', ''name'']) (nth_opt cols 1);
          weightCol = js_or (findCol cols [''calculated weights'', ''weights'', ''weight'']) (nth_opt cols 2);
          scoreCol = js_or (findCol cols [''score'', ''current score'']) (nth_opt cols 3);
          standardCols = [cidCol, critCol, weightCol, scoreCol];
          detectedMaturityHeaders = filter (\<lambda>c. Some c \<notin> set standardCols) cols
      in (detectedMaturityHeaders,
          map (\<lambda>d. \<lparr>CID = (case js_or (field d cidCol) (Some []) of Some s \<Rightarrow> s | None \<Rightarrow> []),
                     Criterion = (case js_or (field d critCol) (Some []) of Some s \<Rightarrow> s | None \<Rightarrow> []),
                     Calculated_Weights = parsePercentage parseFloat_fn (field d weightCol),
                     Score = Some (parsePercentage parseFloat_fn (field d scoreCol)),
                     maturities = map (\<lambda>header. case map_of d header of Some s \<Rightarrow> s | None \<Rightarrow> [])
                                      detectedMaturityHeaders,
                     selectedMaturityIndex = -1,
                     children = []\<rparr>)
              (lines parsedData)))"

text \<open>New row objects are allocated at the end of the heap and the hierarchy is computed
  over them; \<open>on_error\<close> is the message of the \<open>catch\<close> around the call.\<close>

definition recalculate :: "host \<Rightarrow> nat \<Rightarrow> app_state \<Rightarrow> row list \<Rightarrow> string \<Rightarrow> app_state option" where
  "recalculate hst fuel st new_rows on_error =
     (let h = objects st @ new_rows;
          flatData = [length (objects st) ..< length (objects st) + length new_rows]
      in case calculateHierarchyScores (host_localeCompare hst) fuel h flatData of
           None \<Rightarrow> None
         | Some (Inl (e, h')) \<Rightarrow> Some (st\<lparr>objects := h', errorMsg := on_error\<rparr>)
         | Some (Inr (h', calculated)) \<Rightarrow> Some (st\<lparr>objects := h', data := calculated\<rparr>))"

definition processRawData :: "host \<Rightarrow> nat \<Rightarrow> app_state \<Rightarrow> parsed \<Rightarrow> app_state option" where
  "processRawData hst fuel st parsedData =
     (let (detectedMaturityHeaders, formatted) = format_rows (parseFloat hst) parsedData
      in recalculate hst fuel (st\<lparr>maturityHeaders := detectedMaturityHeaders\<rparr>) formatted
           ''Failed to process data. Ensure CSV format is correct.'')"

text \<open>
  \<open>handlePaste\<close>: a parser that throws and the check of the columns both end in the
  \<open>catch\<close>, which sets the message only. \<open>processRawData\<close> catches its own errors, so
  after it the drawer is closed and the message cleared.
\<close>

definition parse_pasted :: "host \<Rightarrow> string \<Rightarrow> js_error + parsed" where
  "parse_pasted hst text =
     (if CHR 0x09 \<in> set text then d3_tsvParse hst text else d3_csvParse hst text)"

definition handlePaste :: "host \<Rightarrow> nat \<Rightarrow> app_state \<Rightarrow> app_state option" where
  "handlePaste hst fuel st =
     (case parse_pasted hst (pasteText st) of
        Inl e \<Rightarrow> Some (st\<lparr>errorMsg := ''Failed to parse data. Check format.''\<rparr>)
      | Inr parsedData \<Rightarrow>
          if length (columns parsedData) < 2
          then Some (st\<lparr>errorMsg := ''Failed to parse data. Check format.''\<rparr>)
          else (case processRawData hst fuel st parsedData of
                  None \<Rightarrow> None
                | Some st' \<Rightarrow> Some (st'\<lparr>pasteModalOpen := False, pasteText := [], errorMsg := []\<rparr>)))"

text \<open>The decimal numeral of a number, for \<open>`Maturity ${i+1}`\<close>.\<close>

function show_nat :: "nat \<Rightarrow> string" where
  "show_nat n = (if n < 10 then [char_of (48 + n)] else show_nat (n div 10) @ [char_of (48 + n mod 10)])"
  by pat_completeness auto
termination
  by (relation "measure id") auto

text \<open>
  \<open>loadJson\<close>: the \<open>onload\<close> callback of the reader, with the text of the file. Reading
  \<open>jsonImport.data\<close> of \<open>null\<close> throws; a value that is neither an array nor an object
  with \<open>data\<close> and \<open>maturityHeaders\<close> leaves \<open>loadedData\<close> empty.
\<close>

definition loadJson_onload :: "host \<Rightarrow> nat \<Rightarrow> app_state \<Rightarrow> string \<Rightarrow> app_state option" where
  "loadJson_onload hst fuel st result =
     (case JSON_parse hst result of
        Inl e \<Rightarrow> Some (st\<lparr>errorMsg := ''Error parsing JSON file''\<rparr>)
      | Inr JNull \<Rightarrow> Some (st\<lparr>errorMsg := ''Error parsing JSON file''\<rparr>)
      | Inr (JArray loadedData) \<Rightarrow>
          (let maxLen = fold (\<lambda>d m. max m (length (maturities d))) loadedData 0;
               inferredHeaders = map (\<lambda>i. ''Maturity '' @ show_nat (i + 1)) [0..<maxLen]
           in recalculate hst fuel (st\<lparr>maturityHeaders := inferredHeaders\<rparr>) loadedData
                ''Error parsing JSON file'')
      | Inr (JWrapped loadedData headers) \<Rightarrow>
          recalculate hst fuel (st\<lparr>maturityHeaders := headers\<rparr>) loadedData ''Error parsing JSON file''
      | Inr JOther \<Rightarrow> recalculate hst fuel st [] ''Error parsing JSON file'')"

text \<open>An example host: d3's parser on a text of one line without a comma gives one
  column and no line; \<open>JSON.parse\<close> throws a SyntaxError on a text that is not JSON.\<close>

definition example_host :: host where
  "example_host =
     \<lparr>host_localeCompare = (\<lambda>a b. 0),
      d3_csvParse = (\<lambda>s. Inr \<lparr>columns = [s], lines = []\<rparr>),
      d3_tsvParse = (\<lambda>s. Inr \<lparr>columns = [s], lines = []\<rparr>),
      JSON_parse = (\<lambda>s. Inl SyntaxError),
      parseFloat = (\<lambda>s. None)\<rparr>"

text \<open>A host whose parser finds the four standard columns and one line, with the id
  \<open>constructor.1\<close>.\<close>

definition example_host_line :: host where
  "example_host_line =
     example_host\<lparr>d3_csvParse :=
       (\<lambda>s. Inr \<lparr>columns = [''CID'', ''Criterion'', ''Weight'', ''Score''],
                   lines = [(''CID'', ''constructor.1''), (''Criterion'', ''a''),
                            (''Weight'', ''50%''), (''Score'', [])] # []\<rparr>)\<rparr>"


section \<open>The order of the ids\<close>

text \<open>
  Modelled from the spec: the collation of \<open>String.prototype.localeCompare\<close> with the
  options \<open>numeric: true, sensitivity: 'base'\<close>, which \<open>naturalSort\<close> calls and which is
  the host's, not under src/. The specification (4.1) has it compare two dotted ids
  segment by segment, a pair of segments numerically when both are numeric and otherwise
  lexicographically without regard to case; an id that is a proper prefix of another, by
  segments, comes first. The result is negative, zero or positive.
\<close>

fun split_dot :: "string \<Rightarrow> string list" where
  "split_dot [] = [] # []"
| "split_dot (c # cs) =
     (if c = CHR ''.'' then [] # split_dot cs
      else (case split_dot cs of
              [] \<Rightarrow> [c] # []
            | s # ss \<Rightarrow> (c # s) # ss))"

definition is_digit :: "char \<Rightarrow> bool" where
  "is_digit c = (48 \<le> (of_char c :: nat) \<and> (of_char c :: nat) \<le> 57)"

definition is_numeric :: "string \<Rightarrow> bool" where
  "is_numeric seg = (seg \<noteq> [] \<and> list_all is_digit seg)"

definition number_of :: "string \<Rightarrow> nat" where
  "number_of seg = fold (\<lambda>c n. 10 * n + (of_char c - 48)) seg 0"

fun compare_text :: "string \<Rightarrow> string \<Rightarrow> int" where
  "compare_text [] [] = 0"
| "compare_text [] (b # bs) = -1"
| "compare_text (a # as) [] = 1"
| "compare_text (a # as) (b # bs) =
     (if (of_char a :: nat) < of_char b then -1
      else if (of_char b :: nat) < of_char a then 1
      else compare_text as bs)"

definition compare_segment :: "string \<Rightarrow> string \<Rightarrow> int" where
  "compare_segment a b =
     (if is_numeric a \<and> is_numeric b
      then (if number_of a < number_of b then -1 else if number_of b < number_of a then 1 else 0)
      else compare_text (toLowerCase a) (toLowerCase b))"

fun compare_segments :: "string list \<Rightarrow> string list \<Rightarrow> int" where
  "compare_segments [] [] = 0"
| "compare_segments [] (b # bs) = -1"
| "compare_segments (a # as) [] = 1"
| "compare_segments (a # as) (b # bs) =
     (if compare_segment a b \<noteq> 0 then compare_segment a b else compare_segments as bs)"

definition localeCompare_numeric_base :: "string \<Rightarrow> string \<Rightarrow> int" where
  "localeCompare_numeric_base a b = compare_segments (split_dot a) (split_dot b)"


lemma only_scores_refl: "only_scores n0 h h"
  by (simp add: only_scores_def same_frame_def)

lemma only_scores_trans: "only_scores n0 h h' \<Longrightarrow> only_scores n0 h' h'' \<Longrightarrow> only_scores n0 h h''"
  unfolding only_scores_def same_frame_def by (intro conjI allI impI) (simp_all, metis)

lemma linkedD:
  "linked n0 h \<Longrightarrow> n0 \<le> a \<Longrightarrow> a < length h \<Longrightarrow> c \<in> set (children (h ! a))
     \<Longrightarrow> n0 \<le> c \<and> c < length h \<and> strict_prefix (CID (h ! a)) (CID (h ! c))"
  unfolding linked_def by blast

lemma only_scores_length: "only_scores n0 h h' \<Longrightarrow> length h' = length h"
  by (simp add: only_scores_def)

lemma only_scores_CID: "only_scores n0 h h' \<Longrightarrow> a < length h \<Longrightarrow> CID (h' ! a) = CID (h ! a)"
  by (simp add: only_scores_def same_frame_def)

lemma only_scores_children:
  "only_scores n0 h h' \<Longrightarrow> a < length h \<Longrightarrow> children (h' ! a) = children (h ! a)"
  by (simp add: only_scores_def)

lemma only_scores_linked:
  assumes os: "only_scores n0 h h'" and lk: "linked n0 h"
  shows "linked n0 h'"
  unfolding linked_def
proof (intro allI impI ballI)
  fix a c assume a: "n0 \<le> a \<and> a < length h'" and c: "c \<in> set (children (h' ! a))"
  from a only_scores_length[OF os] have a': "n0 \<le> a" "a < length h" by simp_all
  from c only_scores_children[OF os a'(2)] have c': "c \<in> set (children (h ! a))" by simp
  from linkedD[OF lk a' c'] have p: "n0 \<le> c" "c < length h" "strict_prefix (CID (h ! a)) (CID (h ! c))"
    by blast+
  show "n0 \<le> c \<and> c < length h' \<and> strict_prefix (CID (h' ! a)) (CID (h' ! c))"
    using p only_scores_length[OF os] only_scores_CID[OF os a'(2)] only_scores_CID[OF os p(2)] by simp
qed

lemma only_scores_update:
  "n0 \<le> node \<Longrightarrow> children (h ! node) \<noteq> [] \<Longrightarrow> only_scores n0 h (h[node := (h ! node)\<lparr>Score := s\<rparr>])"
  by (cases "node < length h") (simp_all add: only_scores_def same_frame_def nth_list_update)

lemma calc_only_scores:
  "calculateScore fuel h node = Some (h', s) \<Longrightarrow> linked n0 h \<Longrightarrow> n0 \<le> node \<Longrightarrow> node < length h
     \<Longrightarrow> only_scores n0 h h'"
  "forEach_child fuel cs acc = Some (h', ws', wt') \<Longrightarrow> linked n0 (fst acc) \<Longrightarrow> \<forall>c\<in>set cs. n0 \<le> c \<and> c < length (fst acc)
     \<Longrightarrow> only_scores n0 (fst acc) h'"
proof (induction fuel h node and fuel cs acc arbitrary: h' s and h' ws' wt' rule: calculateScore_forEach_child.induct)
  case (1 h node)
  then show ?case by simp
next
  case (2 fuel h node)
  show ?case
  proof (cases "children (h ! node) = []")
    case True
    with 2(2) show ?thesis by (simp add: only_scores_refl)
  next
    case False
    from False 2(2) obtain h1 ws wt where
      fe: "forEach_child fuel (children (h ! node)) (h, 0, 0) = Some (h1, ws, wt)"
      and h': "h' = h1[node := (h1 ! node)\<lparr>Score := Some ws\<rparr>]"
      by (auto split: option.splits)
    have kids: "\<forall>c\<in>set (children (h ! node)). n0 \<le> c \<and> c < length (fst (h, 0::rat, 0::rat))"
      using linkedD[OF 2(3,4,5)] by simp
    have os: "only_scores n0 h h1"
      using 2(1)[OF False fe _ kids] 2(3) by simp
    have "children (h1 ! node) \<noteq> []"
      using os False 2(5) by (simp add: only_scores_def)
    then have "only_scores n0 h1 h'"
      unfolding h' using 2(4) by (rule only_scores_update[rotated])
    with os show ?thesis by (rule only_scores_trans)
  qed
next
  case (3 fuel acc)
  then show ?case by (simp add: only_scores_refl)
next
  case (4 fuel child rest h weightedSum weightTotal)
  from 4(4) obtain h1 cs where
    c: "calculateScore fuel h child = Some (h1, cs)"
    by (auto split: option.splits)
  have lk: "linked n0 h" using 4(5) by simp
  have os1: "only_scores n0 h h1"
    using 4(1)[OF c lk] 4(6) by simp
  have lk1: "linked n0 h1" using os1 lk by (rule only_scores_linked)
  have len: "length h1 = length h" using os1 by (simp add: only_scores_def)
  have rest: "\<forall>c\<in>set rest. n0 \<le> c \<and> c < length h1" using 4(6) len by simp
  have "only_scores n0 h1 h'"
  proof (cases cs)
    case None
    with 4(4) c have "forEach_child fuel rest (h1, weightedSum, weightTotal) = Some (h', ws', wt')"
      by simp
    from 4(2)[OF c refl refl None this] lk1 rest show ?thesis by simp
  next
    case (Some sc)
    with 4(4) c have "forEach_child fuel rest (h1, weightedSum + sc * Calculated_Weights (h1 ! child), weightTotal + Calculated_Weights (h1 ! child)) = Some (h', ws', wt')"
      by (simp add: Let_def)
    from 4(3)[OF c refl refl Some this] lk1 rest show ?thesis by simp
  qed
  with os1 show ?case by (simp only: fst_conv) (rule only_scores_trans)
qed

lemma lastIndexOf_bound:
  assumes "lastIndexOf s c > -1"
  shows "nat (lastIndexOf s c) < length s"
proof (cases "filter (\<lambda>i. s ! i = c) (rev [0..<length s])")
  case Nil
  with assms show ?thesis by (simp add: lastIndexOf_def)
next
  case (Cons i rest)
  then have "i \<in> set (filter (\<lambda>i. s ! i = c) (rev [0..<length s]))" by simp
  then have "i < length s" by simp
  with Cons show ?thesis by (simp add: lastIndexOf_def)
qed

lemma parentCid_strict_prefix:
  assumes "lastIndexOf s c > -1"
  shows "strict_prefix (substring0 s (lastIndexOf s c)) s"
proof -
  have "nat (lastIndexOf s c) < length s" using assms by (rule lastIndexOf_bound)
  then have "length (take (nat (lastIndexOf s c)) s) < length s" by simp
  then have "take (nat (lastIndexOf s c)) s \<noteq> s" by force
  then show ?thesis
    unfolding substring0_def strict_prefix_def using take_is_prefix by blast
qed

lemma nodeMap_ok_empty: "nodeMap_ok h S nodeMap_empty"
  by (simp add: nodeMap_ok_def nodeMap_empty_def)

lemma nodeMap_ok_set: "nodeMap_ok h S m \<Longrightarrow> d \<in> S \<Longrightarrow> nodeMap_ok h S (nodeMap_set m (CID (h ! d)) d)"
  unfolding nodeMap_ok_def nodeMap_set_def by (cases "CID (h ! d) = ''__proto__''") auto

lemma nodeMap_ok_fold:
  "nodeMap_ok h S m \<Longrightarrow> set ds \<subseteq> S \<Longrightarrow> nodeMap_ok h S (fold (\<lambda>d m. nodeMap_set m (CID (h ! d)) d) ds m)"
  by (induction ds arbitrary: m) (simp_all add: nodeMap_ok_set)

lemma nodeMap_ok_build: "nodeMap_ok h (set ds) (build_nodeMap h ds)"
  unfolding build_nodeMap_def by (rule nodeMap_ok_fold[OF nodeMap_ok_empty]) simp

lemma truthy_not_Object: "truthy b \<noteq> Object p"
  by (simp add: truthy_def)

lemma row_property_not_Object: "row_property r k = Some v \<Longrightarrow> v \<noteq> Object p"
  by (auto simp: row_property_def truthy_def split: if_splits)

lemma nodeMap_get_Object:
  assumes ok: "nodeMap_ok h S m" and get: "nodeMap_get hx m k = Object p"
  shows "p \<in> S \<and> CID (h ! p) = k"
proof (cases "map_of (own m) k")
  case (Some d)
  with get have "d = p" by (simp add: nodeMap_get_def)
  moreover from Some have "(k, d) \<in> set (own m)" by (rule map_of_SomeD)
  ultimately show ?thesis using ok by (simp add: nodeMap_ok_def)
next
  case None
  show ?thesis
  proof (cases "proto m")
    case N: None
    with None get show ?thesis
      by (simp add: nodeMap_get_def Object_prototype_def truthy_not_Object)
  next
    case (Some q)
    show ?thesis
    proof (cases "k = ''__proto__''")
      case True
      with None Some get have "q = p" by (simp add: nodeMap_get_def)
      with Some ok True show ?thesis by (simp add: nodeMap_ok_def)
    next
      case False
      with None Some get show ?thesis
        by (auto simp: nodeMap_get_def Object_prototype_def truthy_not_Object
                 split: option.splits dest: row_property_not_Object)
    qed
  qed
qed

lemma mset_insert_by: "mset (insert_by cmp x xs) = add_mset x (mset xs)"
  by (induction xs) simp_all

lemma mset_sort_by: "mset (sort_by cmp xs) = mset xs"
  unfolding sort_by_def by (induction xs) (simp_all add: mset_insert_by)

lemma only_children_refl: "only_children n0 h h"
  by (simp add: only_children_def same_frame_def)

lemma only_children_push:
  assumes "only_children n0 h1 h" "n0 \<le> p"
  shows "only_children n0 h1 (h[p := (h ! p)\<lparr>children := cs\<rparr>])"
proof (cases "p < length h")
  case True
  with assms show ?thesis
    by (simp add: only_children_def same_frame_def nth_list_update)
next
  case False
  then have "h[p := (h ! p)\<lparr>children := cs\<rparr>] = h" by (intro list_update_beyond) simp
  with assms show ?thesis by simp
qed

lemma linked_push:
  assumes lk: "linked n0 h" and d: "n0 \<le> d" "d < length h" and p: "p < length h"
    and sp: "strict_prefix (CID (h ! p)) (CID (h ! d))"
  shows "linked n0 (h[p := (h ! p)\<lparr>children := children (h ! p) @ [d]\<rparr>])"
    (is "linked n0 ?h2")
  unfolding linked_def
proof (intro allI impI ballI)
  fix a c assume a: "n0 \<le> a \<and> a < length ?h2" and c: "c \<in> set (children (?h2 ! a))"
  have cid: "\<And>x. x < length h \<Longrightarrow> CID (?h2 ! x) = CID (h ! x)"
    using p by (simp add: nth_list_update)
  from a have a': "n0 \<le> a" "a < length h" by simp_all
  have good: "n0 \<le> c \<and> c < length h \<and> strict_prefix (CID (h ! a)) (CID (h ! c))"
  proof (cases "a = p \<and> c = d")
    case True
    with d sp show ?thesis by simp
  next
    case False
    with c a' p have "c \<in> set (children (h ! a))"
      by (auto simp: nth_list_update split: if_splits)
    from linkedD[OF lk a' this] show ?thesis .
  qed
  then show "n0 \<le> c \<and> c < length ?h2 \<and> strict_prefix (CID (?h2 ! a)) (CID (?h2 ! c))"
    using cid[OF a'(2)] cid[of c] by simp
qed

lemma link_rows_inv:
  assumes nm: "nodeMap_ok h1 {n0..<length h1} m"
  shows "link_rows m ds (h, rc) = Inr (h', rc') \<Longrightarrow> only_children n0 h1 h \<Longrightarrow> linked n0 h
     \<Longrightarrow> set ds \<subseteq> {n0..<length h1} \<Longrightarrow> set rc \<subseteq> {n0..<length h1}
     \<Longrightarrow> only_children n0 h1 h' \<and> linked n0 h' \<and> set rc' \<subseteq> {n0..<length h1}"
proof (induction ds arbitrary: h rc)
  case Nil
  then show ?case by simp
next
  case (Cons d ds)
  from Cons.prems(2) have len: "length h = length h1" by (simp add: only_children_def)
  from Cons.prems(4) have d: "n0 \<le> d" "d < length h1" and ds: "set ds \<subseteq> {n0..<length h1}"
    by simp_all
  have cid: "\<And>a. a < length h1 \<Longrightarrow> CID (h ! a) = CID (h1 ! a)"
    using Cons.prems(2) by (simp add: only_children_def same_frame_def)
  let ?ld = "lastIndexOf (CID (h ! d)) (CHR ''.'')"
  have rc_d: "set (rc @ [d]) \<subseteq> {n0..<length h1}" using Cons.prems(5) d by simp
  show ?case
  proof (cases "?ld > -1")
    case False
    with Cons.prems(1) have "link_rows m ds (h, rc @ [d]) = Inr (h', rc')" by (simp add: Let_def)
    from Cons.IH[OF this Cons.prems(2,3) ds rc_d] show ?thesis .
  next
    case True
    let ?k = "substring0 (CID (h ! d)) ?ld"
    show ?thesis
    proof (cases "nodeMap_get h m ?k")
      case (Object p)
      from nodeMap_get_Object[OF nm Object] have p: "n0 \<le> p" "p < length h1" "CID (h1 ! p) = ?k"
        by simp_all
      let ?h2 = "h[p := (h ! p)\<lparr>children := children (h ! p) @ [d]\<rparr>]"
      from Cons.prems(1) True Object have run: "link_rows m ds (?h2, rc) = Inr (h', rc')"
        by (simp add: Let_def)
      have oc: "only_children n0 h1 ?h2" using Cons.prems(2) p(1) by (rule only_children_push)
      have "strict_prefix (CID (h ! p)) (CID (h ! d))"
        using parentCid_strict_prefix[OF True] p(3) cid[OF p(2)] by simp
      then have lk: "linked n0 ?h2"
        using Cons.prems(3) d p(2) len by (intro linked_push) simp_all
      from Cons.IH[OF run oc lk ds Cons.prems(5)] show ?thesis .
    next
      case Truthy
      with Cons.prems(1) True show ?thesis by (simp add: Let_def)
    next
      case Falsy
      with Cons.prems(1) True have "link_rows m ds (h, rc @ [d]) = Inr (h', rc')"
        by (simp add: Let_def)
      from Cons.IH[OF this Cons.prems(2,3) ds rc_d] show ?thesis .
    qed
  qed
qed

lemma only_scores_bounded:
  assumes "only_scores n0 h h'" "cid_bounded n0 M h"
  shows "cid_bounded n0 M h'"
  unfolding cid_bounded_def
proof (intro allI impI)
  fix a assume "n0 \<le> a \<and> a < length h'"
  then have a: "n0 \<le> a" "a < length h" using only_scores_length[OF assms(1)] by simp_all
  with assms(2) have "length (CID (h ! a)) \<le> M" by (simp add: cid_bounded_def)
  then show "length (CID (h' ! a)) \<le> M" using only_scores_CID[OF assms(1) a(2)] by simp
qed

lemma forEach_child_total:
  assumes P: "\<And>h node. linked n0 h \<Longrightarrow> cid_bounded n0 M h \<Longrightarrow> n0 \<le> node \<Longrightarrow> node < length h
                \<Longrightarrow> M - length (CID (h ! node)) < fuel \<Longrightarrow> \<exists>r. calculateScore fuel h node = Some r"
  shows "linked n0 h \<Longrightarrow> cid_bounded n0 M h
     \<Longrightarrow> \<forall>c\<in>set cs. n0 \<le> c \<and> c < length h \<and> M - length (CID (h ! c)) < fuel
     \<Longrightarrow> \<exists>r. forEach_child fuel cs (h, ws, wt) = Some r"
proof (induction cs arbitrary: h ws wt)
  case Nil
  then show ?case by simp
next
  case (Cons c cs)
  from Cons.prems(3) have c: "n0 \<le> c" "c < length h" "M - length (CID (h ! c)) < fuel" by simp_all
  from P[OF Cons.prems(1,2) c] obtain h1 sc where run: "calculateScore fuel h c = Some (h1, sc)"
    by force
  have os: "only_scores n0 h h1" using run Cons.prems(1) c(1,2) by (rule calc_only_scores(1))
  have lk: "linked n0 h1" using os Cons.prems(1) by (rule only_scores_linked)
  have bd: "cid_bounded n0 M h1" using os Cons.prems(2) by (rule only_scores_bounded)
  have rest: "\<forall>c\<in>set cs. n0 \<le> c \<and> c < length h1 \<and> M - length (CID (h1 ! c)) < fuel"
  proof
    fix x assume "x \<in> set cs"
    with Cons.prems(3) have x: "n0 \<le> x" "x < length h" "M - length (CID (h ! x)) < fuel" by simp_all
    then show "n0 \<le> x \<and> x < length h1 \<and> M - length (CID (h1 ! x)) < fuel"
      using only_scores_length[OF os] only_scores_CID[OF os x(2)] by simp
  qed
  show ?case
  proof (cases sc)
    case None
    from Cons.IH[OF lk bd rest, of ws wt] run None show ?thesis by simp
  next
    case (Some v)
    from Cons.IH[OF lk bd rest, of "ws + v * Calculated_Weights (h1 ! c)" "wt + Calculated_Weights (h1 ! c)"]
      run Some show ?thesis by (simp add: Let_def)
  qed
qed

lemma calculateScore_total:
  "linked n0 h \<Longrightarrow> cid_bounded n0 M h \<Longrightarrow> n0 \<le> node \<Longrightarrow> node < length h
     \<Longrightarrow> M - length (CID (h ! node)) < fuel \<Longrightarrow> \<exists>r. calculateScore fuel h node = Some r"
proof (induction fuel arbitrary: h node)
  case 0
  then show ?case by simp
next
  case (Suc fuel)
  show ?case
  proof (cases "children (h ! node) = []")
    case True
    then show ?thesis by simp
  next
    case False
    have kids: "\<forall>c\<in>set (children (h ! node)). n0 \<le> c \<and> c < length h \<and> M - length (CID (h ! c)) < fuel"
    proof
      fix c assume "c \<in> set (children (h ! node))"
      from linkedD[OF Suc.prems(1,3,4) this]
      have c: "n0 \<le> c" "c < length h" "strict_prefix (CID (h ! node)) (CID (h ! c))" by simp_all
      from c(3) have "length (CID (h ! node)) < length (CID (h ! c))" by (rule prefix_length_less)
      moreover from Suc.prems(2) c(1,2) have "length (CID (h ! c)) \<le> M" by (simp add: cid_bounded_def)
      ultimately have "M - length (CID (h ! c)) < fuel" using Suc.prems(5) by arith
      with c show "n0 \<le> c \<and> c < length h \<and> M - length (CID (h ! c)) < fuel" by simp
    qed
    from forEach_child_total[OF Suc.IH Suc.prems(1,2) kids, of 0 0]
    obtain r where "forEach_child fuel (children (h ! node)) (h, 0, 0) = Some r" by blast
    with False show ?thesis by (cases r) simp
  qed
qed

lemma forEach_root_only_scores:
  "forEach_root fuel rs h = Some h' \<Longrightarrow> linked n0 h \<Longrightarrow> \<forall>r\<in>set rs. n0 \<le> r \<and> r < length h
     \<Longrightarrow> only_scores n0 h h'"
proof (induction rs arbitrary: h)
  case Nil
  then show ?case by (simp add: only_scores_refl)
next
  case (Cons r rs)
  from Cons.prems(1) obtain h1 sc where run: "calculateScore fuel h r = Some (h1, sc)"
    and rest: "forEach_root fuel rs h1 = Some h'"
    by (auto split: option.splits)
  from Cons.prems(3) have r: "n0 \<le> r" "r < length h" by simp_all
  have os: "only_scores n0 h h1" using run Cons.prems(2) r by (rule calc_only_scores(1))
  have "only_scores n0 h1 h'"
    using rest only_scores_linked[OF os Cons.prems(2)] Cons.prems(3) only_scores_length[OF os]
    by (intro Cons.IH) simp_all
  with os show ?case by (rule only_scores_trans)
qed

lemma forEach_root_total:
  "linked n0 h \<Longrightarrow> cid_bounded n0 M h \<Longrightarrow> \<forall>r\<in>set rs. n0 \<le> r \<and> r < length h \<Longrightarrow> M < fuel
     \<Longrightarrow> \<exists>h'. forEach_root fuel rs h = Some h'"
proof (induction rs arbitrary: h)
  case Nil
  then show ?case by simp
next
  case (Cons r rs)
  from Cons.prems(3) have r: "n0 \<le> r" "r < length h" by simp_all
  have "M - length (CID (h ! r)) < fuel" using Cons.prems(4) by arith
  from calculateScore_total[OF Cons.prems(1,2) r this]
  obtain h1 sc where run: "calculateScore fuel h r = Some (h1, sc)" by force
  have os: "only_scores n0 h h1" using run Cons.prems(1) r by (rule calc_only_scores(1))
  have "\<exists>h'. forEach_root fuel rs h1 = Some h'"
    using only_scores_linked[OF os Cons.prems(1)] only_scores_bounded[OF os Cons.prems(2)]
      Cons.prems(3,4) only_scores_length[OF os]
    by (intro Cons.IH) simp_all
  with run show ?case by simp
qed

lemma link_rows_throw:
  assumes nm: "nodeMap_ok h1 {n0..<length h1} m"
  shows "link_rows m ds (h, rc) = Inl (e, h') \<Longrightarrow> only_children n0 h1 h \<Longrightarrow> only_children n0 h1 h'"
proof (induction ds arbitrary: h rc)
  case Nil
  then show ?case by simp
next
  case (Cons d ds)
  let ?ld = "lastIndexOf (CID (h ! d)) (CHR ''.'')"
  show ?case
  proof (cases "?ld > -1")
    case False
    with Cons.prems(1) have "link_rows m ds (h, rc @ [d]) = Inl (e, h')" by (simp add: Let_def)
    from Cons.IH[OF this Cons.prems(2)] show ?thesis .
  next
    case True
    let ?k = "substring0 (CID (h ! d)) ?ld"
    show ?thesis
    proof (cases "nodeMap_get h m ?k")
      case (Object p)
      from nodeMap_get_Object[OF nm Object] have p: "n0 \<le> p" by simp
      let ?h2 = "h[p := (h ! p)\<lparr>children := children (h ! p) @ [d]\<rparr>]"
      from Cons.prems(1) True Object have run: "link_rows m ds (?h2, rc) = Inl (e, h')"
        by (simp add: Let_def)
      have oc: "only_children n0 h1 ?h2" using Cons.prems(2) p by (rule only_children_push)
      from Cons.IH[OF run oc] show ?thesis .
    next
      case Truthy
      with Cons.prems(1) True have "h' = h" by (simp add: Let_def)
      with Cons.prems(2) show ?thesis by simp
    next
      case Falsy
      with Cons.prems(1) True have "link_rows m ds (h, rc @ [d]) = Inl (e, h')"
        by (simp add: Let_def)
      from Cons.IH[OF this Cons.prems(2)] show ?thesis .
    qed
  qed
qed

lemma copy_rows_linked: "linked (length h) (h @ map (\<lambda>d. (h ! d)\<lparr>children := []\<rparr>) flat)"
  unfolding linked_def
proof (intro allI impI ballI)
  fix a c
  assume a: "length h \<le> a \<and> a < length (h @ map (\<lambda>d. (h ! d)\<lparr>children := []\<rparr>) flat)"
    and c: "c \<in> set (children ((h @ map (\<lambda>d. (h ! d)\<lparr>children := []\<rparr>) flat) ! a))"
  from a have "a - length h < length flat" by auto
  with a have "children ((h @ map (\<lambda>d. (h ! d)\<lparr>children := []\<rparr>) flat) ! a) = []"
    by (simp add: nth_append)
  with c show "length h \<le> c \<and> c < length (h @ map (\<lambda>d. (h ! d)\<lparr>children := []\<rparr>) flat)
      \<and> strict_prefix (CID ((h @ map (\<lambda>d. (h ! d)\<lparr>children := []\<rparr>) flat) ! a))
           (CID ((h @ map (\<lambda>d. (h ! d)\<lparr>children := []\<rparr>) flat) ! c))"
    by simp
qed

lemma calculateHierarchyScores_cases:
  assumes "calculateHierarchyScores lc fuel h flat = Some (Inr (h', out))"
  obtains h2 rc where
    "link_rows (build_nodeMap (fst (copy_rows h flat)) (snd (copy_rows h flat)))
       (snd (copy_rows h flat)) (fst (copy_rows h flat), []) = Inr (h2, rc)"
    "forEach_root fuel rc h2 = Some h'"
    "out = sort_by (\<lambda>a b. naturalSort lc (h' ! a) (h' ! b)) (snd (copy_rows h flat))"
  using assms unfolding calculateHierarchyScores_def
  by (auto simp: Let_def split: prod.splits sum.splits option.splits)

lemma link_rows_copy:
  assumes "link_rows (build_nodeMap (fst (copy_rows h flat)) (snd (copy_rows h flat)))
       (snd (copy_rows h flat)) (fst (copy_rows h flat), []) = Inr (h2, rc)"
  shows "only_children (length h) (fst (copy_rows h flat)) h2 \<and> linked (length h) h2
     \<and> set rc \<subseteq> {length h..<length (fst (copy_rows h flat))}"
proof -
  let ?h1 = "fst (copy_rows h flat)" and ?pd = "snd (copy_rows h flat)"
  have pd: "set ?pd = {length h..<length ?h1}" by (simp add: copy_rows_def)
  have nm: "nodeMap_ok ?h1 {length h..<length ?h1} (build_nodeMap ?h1 ?pd)"
    using nodeMap_ok_build[of ?h1 ?pd] pd by simp
  have lk: "linked (length h) ?h1" unfolding copy_rows_def fst_conv by (rule copy_rows_linked)
  show ?thesis
    using assms only_children_refl lk
    by (rule link_rows_inv[OF nm]) (simp_all add: pd)
qed

lemma calculateHierarchyScores_heap:
  assumes "calculateHierarchyScores lc fuel h flat = Some (Inr (h', out))"
  shows "\<exists>h2. only_children (length h) (fst (copy_rows h flat)) h2 \<and> linked (length h) h2
     \<and> only_scores (length h) h2 h'"
proof -
  from assms obtain h2 rc where
    lr: "link_rows (build_nodeMap (fst (copy_rows h flat)) (snd (copy_rows h flat)))
       (snd (copy_rows h flat)) (fst (copy_rows h flat), []) = Inr (h2, rc)"
    and fr: "forEach_root fuel rc h2 = Some h'"
    by (rule calculateHierarchyScores_cases)
  from link_rows_copy[OF lr] have oc: "only_children (length h) (fst (copy_rows h flat)) h2"
    and lk: "linked (length h) h2" and rc: "set rc \<subseteq> {length h..<length (fst (copy_rows h flat))}"
    by simp_all
  have "length h2 = length (fst (copy_rows h flat))" using oc by (simp add: only_children_def)
  with rc have "\<forall>r\<in>set rc. length h \<le> r \<and> r < length h2" by auto
  with fr lk have "only_scores (length h) h2 h'" by (rule forEach_root_only_scores)
  with oc lk show ?thesis by blast
qed

lemma calculateHierarchyScores_out:
  assumes "calculateHierarchyScores lc fuel h flat = Some (Inr (h', out))"
  shows "mset out = mset [length h..<length h + length flat]"
proof -
  from assms obtain h2 rc where
    "out = sort_by (\<lambda>a b. naturalSort lc (h' ! a) (h' ! b)) (snd (copy_rows h flat))"
    by (rule calculateHierarchyScores_cases)
  then show ?thesis by (simp add: mset_sort_by copy_rows_def)
qed

lemma calculateHierarchyScores_total:
  assumes "\<forall>d\<in>set flat. length (CID (h ! d)) < fuel"
  shows "\<exists>res. calculateHierarchyScores lc fuel h flat = Some res"
proof (cases "link_rows (build_nodeMap (fst (copy_rows h flat)) (snd (copy_rows h flat)))
       (snd (copy_rows h flat)) (fst (copy_rows h flat), [])")
  case (Inl e)
  then show ?thesis
    by (simp add: calculateHierarchyScores_def Let_def case_prod_beta)
next
  case (Inr r)
  obtain h2 rc where r: "r = (h2, rc)" by (cases r)
  let ?h1 = "fst (copy_rows h flat)"
  from link_rows_copy[OF Inr[unfolded r]] have oc: "only_children (length h) ?h1 h2"
    and lk: "linked (length h) h2" and rc: "set rc \<subseteq> {length h..<length ?h1}"
    by simp_all
  have len: "length h2 = length ?h1" using oc by (simp add: only_children_def)
  have roots: "\<forall>r\<in>set rc. length h \<le> r \<and> r < length h2" using rc len by auto
  have "\<exists>h3. forEach_root fuel rc h2 = Some h3"
  proof (cases fuel)
    case 0
    with assms have "flat = []" by (cases flat) auto
    then have "rc = []" using rc by (simp add: copy_rows_def)
    then show ?thesis by simp
  next
    case (Suc M)
    have bd: "cid_bounded (length h) M h2"
      unfolding cid_bounded_def
    proof (intro allI impI)
      fix a assume a: "length h \<le> a \<and> a < length h2"
      then have a1: "a < length ?h1" using len by simp
      from a a1 have i: "a - length h < length flat" by (auto simp: copy_rows_def)
      have "CID (h2 ! a) = CID (?h1 ! a)"
        using oc a1 by (simp add: only_children_def same_frame_def)
      also have "\<dots> = CID (h ! (flat ! (a - length h)))"
        using a i by (simp add: copy_rows_def nth_append)
      finally show "length (CID (h2 ! a)) \<le> M"
        using assms i Suc by (simp add: less_Suc_eq_le)
    qed
    from forEach_root_total[OF lk bd roots, of fuel] Suc show ?thesis by simp
  qed
  then obtain h3 where "forEach_root fuel rc h2 = Some h3" ..
  with Inr r show ?thesis
    by (simp add: calculateHierarchyScores_def Let_def case_prod_beta)
qed

lemma calc_fuel_mono:
  "calculateScore fuel h node = Some r \<Longrightarrow> fuel \<le> fuel' \<Longrightarrow> calculateScore fuel' h node = Some r"
  "forEach_child fuel cs acc = Some r' \<Longrightarrow> fuel \<le> fuel' \<Longrightarrow> forEach_child fuel' cs acc = Some r'"
proof (induction fuel h node and fuel cs acc arbitrary: r fuel' and r' fuel' rule: calculateScore_forEach_child.induct)
  case (1 h node)
  then show ?case by simp
next
  case (2 fuel h node)
  from 2(3) obtain f' where f': "fuel' = Suc f'" "fuel \<le> f'" by (cases fuel') simp_all
  show ?case
  proof (cases "children (h ! node) = []")
    case True
    with 2(2) f' show ?thesis by simp
  next
    case False
    from False 2(2) obtain x where fe: "forEach_child fuel (children (h ! node)) (h, 0, 0) = Some x"
      by (auto split: option.splits)
    from 2(1)[OF False fe f'(2)] fe 2(2) False f'(1) show ?thesis by simp
  qed
next
  case (3 fuel acc)
  then show ?case by simp
next
  case (4 fuel child rest h weightedSum weightTotal)
  from 4(4) obtain h1 sc where c: "calculateScore fuel h child = Some (h1, sc)"
    by (auto split: option.splits)
  from 4(1)[OF c 4(5)] have c': "calculateScore fuel' h child = Some (h1, sc)" .
  show ?case
  proof (cases sc)
    case None
    with 4(4) c have "forEach_child fuel rest (h1, weightedSum, weightTotal) = Some r'" by simp
    from 4(2)[OF c refl refl None this 4(5)] c' None show ?thesis by simp
  next
    case (Some v)
    with 4(4) c have "forEach_child fuel rest (h1, weightedSum + v * Calculated_Weights (h1 ! child),
        weightTotal + Calculated_Weights (h1 ! child)) = Some r'"
      by (simp add: Let_def)
    from 4(3)[OF c refl refl Some this 4(5)] c' Some show ?thesis by (simp add: Let_def)
  qed
qed

lemma forEach_root_fuel_mono:
  "forEach_root fuel rs h = Some h' \<Longrightarrow> fuel \<le> fuel' \<Longrightarrow> forEach_root fuel' rs h = Some h'"
proof (induction rs arbitrary: h)
  case Nil
  then show ?case by simp
next
  case (Cons r rs)
  from Cons.prems(1) obtain h1 sc where run: "calculateScore fuel h r = Some (h1, sc)"
    and rest: "forEach_root fuel rs h1 = Some h'"
    by (auto split: option.splits)
  from calc_fuel_mono(1)[OF run Cons.prems(2)] Cons.IH[OF rest Cons.prems(2)] show ?case by simp
qed

lemma calculateHierarchyScores_fuel_mono:
  assumes "calculateHierarchyScores lc fuel h flat = Some res" "fuel \<le> fuel'"
  shows "calculateHierarchyScores lc fuel' h flat = Some res"
proof (cases "link_rows (build_nodeMap (fst (copy_rows h flat)) (snd (copy_rows h flat)))
       (snd (copy_rows h flat)) (fst (copy_rows h flat), [])")
  case (Inl e)
  with assms(1) have "res = Inl e"
    by (simp add: calculateHierarchyScores_def Let_def case_prod_beta)
  with Inl show ?thesis
    by (simp add: calculateHierarchyScores_def Let_def case_prod_beta)
next
  case (Inr r)
  obtain h2 rc where r: "r = (h2, rc)" by (cases r)
  from assms(1) Inr r obtain h3 where h3: "forEach_root fuel rc h2 = Some h3"
    by (auto simp: calculateHierarchyScores_def Let_def case_prod_beta split: option.splits)
  from forEach_root_fuel_mono[OF h3 assms(2)] h3 assms(1) Inr r show ?thesis
    by (simp add: calculateHierarchyScores_def Let_def case_prod_beta)
qed

lemma child_rel_wf:
  assumes "\<And>a c. a \<in> set out \<Longrightarrow> c \<in> set (children (h ! a)) \<Longrightarrow> length (CID (h ! a)) < length (CID (h ! c))"
  shows "acyclic (child_rel h out) \<and> wf ((child_rel h out)\<inverse>)"
proof -
  have "child_rel h out \<subseteq> measure (\<lambda>a. length (CID (h ! a)))"
    using assms by (auto simp: child_rel_def)
  then have "wf (child_rel h out)" by (rule wf_subset[OF wf_measure])
  then have ac: "acyclic (child_rel h out)" by (rule wf_acyclic)
  have "child_rel h out \<subseteq> set out \<times> (\<Union>a\<in>set out. set (children (h ! a)))"
    by (auto simp: child_rel_def)
  then have "finite (child_rel h out)" by (rule finite_subset) simp
  from finite_acyclic_wf_converse[OF this ac] ac show ?thesis by simp
qed

text \<open>
  Claim C9. For every finite flat row list \<open>calculateHierarchyScores\<close> terminates: with
  fuel above the length of the longest id it returns (a result or the thrown error), and
  more fuel does not change what it returns. In the returned heap every child of a
  returned row is a returned row whose id has the parent's id as a strict prefix (the
  parent id is the row's id cut at its last dot), so the children relation is acyclic
  and the recursion of \<open>calculateScore\<close> from parent to child is well-founded, also
  when ids are duplicated.
\<close>

theorem calculateHierarchyScores_terminates:
  assumes "\<forall>d\<in>set flatData. length (CID (h ! d)) < fuel"
  shows "\<exists>res. (\<forall>fuel'\<ge>fuel. calculateHierarchyScores localeCompare fuel' h flatData = Some res) \<and>
           (\<forall>h' out. res = Inr (h', out) \<longrightarrow>
               (\<forall>a\<in>set out. \<forall>c\<in>set (children (h' ! a)).
                   c \<in> set out \<and> strict_prefix (CID (h' ! a)) (CID (h' ! c)))
             \<and> acyclic (child_rel h' out) \<and> wf ((child_rel h' out)\<inverse>))"
proof -
  from calculateHierarchyScores_total[OF assms]
  obtain res where res: "calculateHierarchyScores localeCompare fuel h flatData = Some res" ..
  have mono: "\<forall>fuel'\<ge>fuel. calculateHierarchyScores localeCompare fuel' h flatData = Some res"
    using calculateHierarchyScores_fuel_mono[OF res] by blast
  have "(\<forall>a\<in>set out. \<forall>c\<in>set (children (h' ! a)).
                   c \<in> set out \<and> strict_prefix (CID (h' ! a)) (CID (h' ! c)))
             \<and> acyclic (child_rel h' out) \<and> wf ((child_rel h' out)\<inverse>)"
    if r: "res = Inr (h', out)" for h' out
  proof -
    from res r have run: "calculateHierarchyScores localeCompare fuel h flatData = Some (Inr (h', out))"
      by simp
    from calculateHierarchyScores_heap[OF run] obtain h2 where
      oc: "only_children (length h) (fst (copy_rows h flatData)) h2"
      and lk2: "linked (length h) h2" and os: "only_scores (length h) h2 h'"
      by blast
    have lk: "linked (length h) h'" using os lk2 by (rule only_scores_linked)
    have len: "length h' = length h + length flatData"
      using oc os by (simp add: only_children_def only_scores_def copy_rows_def)
    have "set out = set_mset (mset [length h..<length h + length flatData])"
      using calculateHierarchyScores_out[OF run] by (metis set_mset_mset)
    then have out: "set out = {length h..<length h'}" using len by simp
    have kids: "c \<in> set out \<and> strict_prefix (CID (h' ! a)) (CID (h' ! c))"
      if "a \<in> set out" "c \<in> set (children (h' ! a))" for a c
    proof -
      from that(1) out have "length h \<le> a" "a < length h'" by simp_all
      from linkedD[OF lk this that(2)] out show ?thesis by simp
    qed
    have "length (CID (h' ! a)) < length (CID (h' ! c))"
      if "a \<in> set out" "c \<in> set (children (h' ! a))" for a c
      using kids[OF that] by (simp add: prefix_length_less)
    from child_rel_wf[of out h', OF this] kids show ?thesis by blast
  qed
  with mono show ?thesis by blast
qed

theorem calculateHierarchyScores_terminates_witness:
  "calculateHierarchyScores (\<lambda>a b. 0) 9 example_rollup [0, 1, 2]
     = Some (Inr (example_rollup_after, [3, 4, 5]))
   \<and> strict_prefix (CID (example_rollup_after ! 3)) (CID (example_rollup_after ! 4))
   \<and> acyclic (child_rel example_rollup_after [3, 4, 5])
   \<and> wf ((child_rel example_rollup_after [3, 4, 5])\<inverse>)"
proof -
  have h: "\<forall>d\<in>set [0, 1, 2]. length (CID (example_rollup ! d)) < 4"
    by (simp add: example_rollup_def example_row_def)
  from calculateHierarchyScores_terminates[OF h, of "\<lambda>a b. 0"]
  obtain res where
    r1: "\<forall>fuel'\<ge>4. calculateHierarchyScores (\<lambda>a b. 0) fuel' example_rollup [0, 1, 2] = Some res"
    and r2: "\<forall>h' out. res = Inr (h', out) \<longrightarrow>
               (\<forall>a\<in>set out. \<forall>c\<in>set (children (h' ! a)).
                   c \<in> set out \<and> strict_prefix (CID (h' ! a)) (CID (h' ! c)))
             \<and> acyclic (child_rel h' out) \<and> wf ((child_rel h' out)\<inverse>)"
    by blast
  have e: "calculateHierarchyScores (\<lambda>a b. 0) 4 example_rollup [0, 1, 2]
     = Some (Inr (example_rollup_after, [3, 4, 5]))"
    by code_simp
  from r1 have "calculateHierarchyScores (\<lambda>a b. 0) 4 example_rollup [0, 1, 2] = Some res" by simp
  with e have res: "res = Inr (example_rollup_after, [3, 4, 5])" by simp
  from r1 res have 1: "calculateHierarchyScores (\<lambda>a b. 0) 9 example_rollup [0, 1, 2]
     = Some (Inr (example_rollup_after, [3, 4, 5]))" by simp
  from r2 res have k: "\<forall>a\<in>set [3, 4, 5]. \<forall>c\<in>set (children (example_rollup_after ! a)).
                   c \<in> set [3, 4, 5::nat] \<and> strict_prefix (CID (example_rollup_after ! a)) (CID (example_rollup_after ! c))"
    and 3: "acyclic (child_rel example_rollup_after [3, 4, 5])"
    and 4: "wf ((child_rel example_rollup_after [3, 4, 5])\<inverse>)"
    by blast+
  have "4 \<in> set (children (example_rollup_after ! 3))"
    by (simp add: example_rollup_after_def example_rollup_def)
  with k have 2: "strict_prefix (CID (example_rollup_after ! 3)) (CID (example_rollup_after ! 4))"
    by simp
  from 1 2 3 4 show ?thesis by blast
qed

lemma calculateHierarchyScores_copies:
  assumes "calculateHierarchyScores localeCompare fuel h flatData = Some (Inr (h', out))"
  shows "length out = length flatData
     \<and> mset out = mset [length h..<length h + length flatData]
     \<and> (\<forall>i<length flatData. same_frame (h ! (flatData ! i)) (h' ! (length h + i)))
     \<and> length h \<le> length h' \<and> (\<forall>a<length h. h' ! a = h ! a)"
proof -
  from calculateHierarchyScores_heap[OF assms] obtain h2 where
    oc: "only_children (length h) (fst (copy_rows h flatData)) h2"
    and os: "only_scores (length h) h2 h'"
    by blast
  let ?h1 = "fst (copy_rows h flatData)"
  have len1: "length ?h1 = length h + length flatData" by (simp add: copy_rows_def)
  have len2: "length h2 = length ?h1" using oc by (simp add: only_children_def)
  have len3: "length h' = length h2" using os by (simp add: only_scores_def)
  have m: "mset out = mset [length h..<length h + length flatData]"
    using assms by (rule calculateHierarchyScores_out)
  then have "size (mset out) = size (mset [length h..<length h + length flatData])" by simp
  then have l: "length out = length flatData" by simp
  have fr: "same_frame (h ! (flatData ! i)) (h' ! (length h + i))" if i: "i < length flatData" for i
  proof -
    have a: "length h + i < length ?h1" using i len1 by simp
    have "?h1 ! (length h + i) = (h ! (flatData ! i))\<lparr>children := []\<rparr>"
      using i by (simp add: copy_rows_def nth_append)
    then have 1: "same_frame (h ! (flatData ! i)) (?h1 ! (length h + i))"
      by (simp add: same_frame_def)
    have 2: "same_frame (?h1 ! (length h + i)) (h2 ! (length h + i))"
      using oc a by (simp add: only_children_def)
    have 3: "same_frame (h2 ! (length h + i)) (h' ! (length h + i))"
      using os a len2 by (simp add: only_scores_def)
    from 1 2 3 show ?thesis by (simp add: same_frame_def)
  qed
  have old: "h' ! a = h ! a" if a: "a < length h" for a
  proof -
    have "?h1 ! a = h ! a" using a by (simp add: copy_rows_def nth_append)
    moreover have "h2 ! a = ?h1 ! a" using oc a len1 by (simp add: only_children_def)
    moreover have "h' ! a = h2 ! a" using os a len1 len2 by (simp add: only_scores_def)
    ultimately show ?thesis by simp
  qed
  from l m fr old len1 len2 len3 show ?thesis by simp
qed

lemma calculateHierarchyScores_leaf_Score:
  assumes run: "calculateHierarchyScores localeCompare fuel h flatData = Some (Inr (h', out))"
    and i: "i < length flatData" and leaf: "children (h' ! (length h + i)) = []"
  shows "Score (h' ! (length h + i)) = Score (h ! (flatData ! i))"
proof -
  from calculateHierarchyScores_heap[OF run] obtain h2 where
    oc: "only_children (length h) (fst (copy_rows h flatData)) h2"
    and os: "only_scores (length h) h2 h'"
    by blast
  let ?h1 = "fst (copy_rows h flatData)" and ?a = "length h + i"
  have len1: "length ?h1 = length h + length flatData" by (simp add: copy_rows_def)
  have len2: "length h2 = length ?h1" using oc by (simp add: only_children_def)
  have a: "?a < length h2" using i len1 len2 by simp
  have "children (h2 ! ?a) = []" using only_scores_children[OF os a] leaf by simp
  then have "h' ! ?a = h2 ! ?a" using os a by (simp add: only_scores_def)
  moreover have "Score (h2 ! ?a) = Score (?h1 ! ?a)" using oc a len2 by (simp add: only_children_def)
  moreover have "?h1 ! ?a = (h ! (flatData ! i))\<lparr>children := []\<rparr>"
    using i by (simp add: copy_rows_def nth_append)
  ultimately show ?thesis by simp
qed

lemma calculateHierarchyScores_throw:
  assumes "calculateHierarchyScores localeCompare fuel h flatData = Some (Inl (e, h'))"
  shows "length h \<le> length h' \<and> (\<forall>a<length h. h' ! a = h ! a)"
proof -
  let ?h1 = "fst (copy_rows h flatData)" and ?pd = "snd (copy_rows h flatData)"
  from assms have lr: "link_rows (build_nodeMap ?h1 ?pd) ?pd (?h1, []) = Inl (e, h')"
    by (auto simp: calculateHierarchyScores_def Let_def case_prod_beta split: sum.splits option.splits)
  have pd: "set ?pd = {length h..<length ?h1}" by (simp add: copy_rows_def)
  have nm: "nodeMap_ok ?h1 {length h..<length ?h1} (build_nodeMap ?h1 ?pd)"
    using nodeMap_ok_build[of ?h1 ?pd] pd by simp
  have oc: "only_children (length h) ?h1 h'"
    using lr only_children_refl by (rule link_rows_throw[OF nm])
  have len: "length h' = length h + length flatData"
    using oc by (simp add: only_children_def copy_rows_def)
  have "h' ! a = h ! a" if a: "a < length h" for a
  proof -
    have "?h1 ! a = h ! a" using a by (simp add: copy_rows_def nth_append)
    moreover have "h' ! a = ?h1 ! a" using oc a by (simp add: only_children_def copy_rows_def)
    ultimately show ?thesis by simp
  qed
  with len show ?thesis by simp
qed




text \<open>
  Claim C1. The claim has the score of an internal node be \<open>weightedSum / weightTotal\<close>.
  The code accumulates \<open>weightTotal\<close> but assigns \<open>weightedSum\<close> itself: for the
  parent \<open>1\<close> with the scored child \<open>1.1\<close> (weight 0.5, score 1.0) and the unscored
  child \<open>1.2\<close> (weight 0.5) the copy of the parent gets the score 0.5, not 1.0.
\<close>

theorem calculateScore_not_divided:
  "(case calculateHierarchyScores localeCompare 2 example_rollup [0, 1, 2] of
      Some (Inr (h', out)) \<Rightarrow>
        CID (h' ! 3) = ''1'' \<and> children (h' ! 3) = [4, 5] \<and> Score (h' ! 3) = Some (1/2)
    | _ \<Rightarrow> False)"
  by code_simp

text \<open>
  Claim C6. The claim has the hierarchy builder never throw. A row whose computed parent
  id names a property that \<open>nodeMap\<close> inherits from \<open>Object.prototype\<close> finds a truthy
  parent without a \<open>children\<close> array, and \<open>nodeMap[parentCid].children.push(d)\<close>
  throws a TypeError: so for the single row \<open>constructor.1\<close>.
\<close>

theorem link_rows_throws:
  "calculateHierarchyScores localeCompare fuel [example_row ''constructor.1'' 1 (Some 0)] [0]
     = Some (Inl (TypeError, [example_row ''constructor.1'' 1 (Some 0),
                              example_row ''constructor.1'' 1 (Some 0)]))"
  by code_simp

text \<open>The examples of the specification that the code does reproduce: row \<open>1.1\<close> becomes
  a child of row \<open>1\<close>, and row \<open>3.1\<close> without a row \<open>3\<close> becomes a root; two children
  of weight 0.5 with the scores 0.8 and 0.6 give the parent 0.7, and a parent without a
  scored child gets 0.\<close>

lemma link_rows_examples:
  "(case copy_rows example_orphan [0, 1, 2] of
      (h1, processedData) \<Rightarrow>
        (case link_rows (build_nodeMap h1 processedData) processedData (h1, []) of
           Inr (h2, rootChildren) \<Rightarrow> rootChildren = [3, 5] \<and> children (h2 ! 3) = [4]
         | Inl e \<Rightarrow> False))"
  by code_simp

lemma calculateScore_examples:
  "(case calculateHierarchyScores localeCompare 2
           [example_row ''1'' 1 None, example_row ''1.1'' (1/2) (Some (8/10)),
            example_row ''1.2'' (1/2) (Some (6/10))] [0, 1, 2] of
      Some (Inr (h', out)) \<Rightarrow> Score (h' ! 3) = Some (7/10)
    | _ \<Rightarrow> False)
   \<and> (case calculateHierarchyScores localeCompare 2
           [example_row ''1'' 1 None, example_row ''1.1'' (1/2) None] [0, 1] of
      Some (Inr (h', out)) \<Rightarrow> Score (h' ! 2) = Some 0
    | _ \<Rightarrow> False)"
  by code_simp

section \<open>The maturity click\<close>

lemma upto_map_String_at:
  assumes "0 \<le> i" "i < int (length ms)"
  shows "map (String_at ms) [0..i] = take (nat i + 1) ms"
proof (rule nth_equalityI)
  show "length (map (String_at ms) [0..i]) = length (take (nat i + 1) ms)"
    using assms by simp
next
  fix k assume "k < length (map (String_at ms) [0..i])"
  then have k: "int k \<le> i" using assms by simp
  then have "[0..i] ! k = int k" using nth_upto[of 0 k i] by simp
  with k assms show "map (String_at ms) [0..i] ! k = take (nat i + 1) ms ! k"
    by (simp add: String_at_def)
qed

lemma fold_count:
  "fold (\<lambda>i rank. if P (f i) then rank + 1 else rank) xs (n::nat) = n + length (filter P (map f xs))"
  by (induction xs arbitrary: n) simp_all

text \<open>
  Claim C3. For every row and every index of one of its options, clicked with the text
  of that option (as the table's button does): the resolved score is 0 when the trimmed,
  lower-cased text is \<open>no\<close>; otherwise it is \<open>rank / validCount\<close>, where \<open>validCount\<close>
  counts the options of the row whose trimmed, lower-cased text is neither empty nor
  \<open>no\<close> and \<open>rank\<close> counts those at indices up to the clicked one, and 0 when
  \<open>validCount\<close> is 0. This is \<open>MaturityRankResolver\<close>, the rule in the
  specification's words.
\<close>

theorem newScore_of_rank:
  assumes "0 \<le> maturityIndex" "maturityIndex < int (length currentMaturities)"
  shows "newScore_of currentMaturities maturityIndex (currentMaturities ! nat maturityIndex)
           = MaturityRankResolver currentMaturities (nat maturityIndex)"
  using assms
  by (simp add: newScore_of_def MaturityRankResolver_def Let_def fold_count upto_map_String_at)

theorem newScore_of_rank_witness:
  "newScore_of example_options 1 ''Level 2'' = 1 \<and> newScore_of example_options 0 ''Level 1'' = 1/2"
proof -
  have len: "length example_options = 4" by (simp add: example_options_def)
  have "newScore_of example_options 1 (example_options ! nat 1) = MaturityRankResolver example_options (nat 1)"
    by (rule newScore_of_rank) (simp_all add: len)
  moreover have "MaturityRankResolver example_options (nat 1) = 1" by code_simp
  moreover have "example_options ! nat 1 = ''Level 2''" by (simp add: example_options_def)
  ultimately have 1: "newScore_of example_options 1 ''Level 2'' = 1" by simp
  have "newScore_of example_options 0 (example_options ! nat 0) = MaturityRankResolver example_options (nat 0)"
    by (rule newScore_of_rank) (simp_all add: len)
  moreover have "MaturityRankResolver example_options (nat 0) = 1/2" by code_simp
  moreover have "example_options ! nat 0 = ''Level 1''" by (simp add: example_options_def)
  ultimately have 2: "newScore_of example_options 0 ''Level 1'' = 1/2" by simp
  from 1 2 show ?thesis by simp
qed

text \<open>The handler returns, given the fuel; what it returns; and the weight of the copy.\<close>

lemma toggle_row_CID: "CID (toggle_row r m s) = CID r"
  by (simp add: toggle_row_def)

lemma list_update_toggle_CID: "CID (h[a := toggle_row (h ! a) m s] ! d) = CID (h ! d)"
  by (cases "a < length h"; cases "d = a") (simp_all add: toggle_row_CID list_update_beyond)

lemma handleMaturityClick_total:
  assumes "\<forall>d\<in>set (data st). length (CID (objects st ! d)) < fuel"
  shows "\<exists>st' err. handleMaturityClick localeCompare fuel st rowIndex maturityIndex totalMaturities maturityText
           = Some (st', err)"
proof (cases "length (data st) \<le> rowIndex")
  case True
  then show ?thesis by (simp add: handleMaturityClick_def)
next
  case False
  let ?row = "data st ! rowIndex"
  let ?h = "(objects st)[?row := toggle_row (objects st ! ?row) maturityIndex
                            (newScore_of (maturities (objects st ! ?row)) maturityIndex maturityText)]"
  from assms have "\<forall>d\<in>set (data st). length (CID (?h ! d)) < fuel"
    by (simp add: list_update_toggle_CID)
  from calculateHierarchyScores_total[OF this, of localeCompare] obtain res where
    "calculateHierarchyScores localeCompare fuel ?h (data st) = Some res" by blast
  with False show ?thesis
    by (cases res) (auto simp: handleMaturityClick_def Let_def split: prod.splits)
qed

lemma handleMaturityClick_returned:
  assumes run: "handleMaturityClick localeCompare fuel st rowIndex maturityIndex totalMaturities maturityText
                  = Some (st', err)"
    and idx: "rowIndex < length (data st)"
    and valid: "data st ! rowIndex < length (objects st)"
  shows "selectedMaturityIndex (objects st' ! (data st ! rowIndex))
          = (if selectedMaturityIndex (objects st ! (data st ! rowIndex)) = maturityIndex then -1
             else maturityIndex)
     \<and> Score (objects st' ! (data st ! rowIndex))
          = (if selectedMaturityIndex (objects st ! (data st ! rowIndex)) = maturityIndex then None
             else Some (newScore_of (maturities (objects st ! (data st ! rowIndex))) maturityIndex
                          maturityText))
     \<and> (err = None \<longrightarrow>
          length (objects st) + rowIndex \<in> set (data st')
          \<and> selectedMaturityIndex (objects st' ! (length (objects st) + rowIndex))
              = (if selectedMaturityIndex (objects st ! (data st ! rowIndex)) = maturityIndex then -1
                 else maturityIndex)
          \<and> (children (objects st' ! (length (objects st) + rowIndex)) = [] \<longrightarrow>
               Score (objects st' ! (length (objects st) + rowIndex))
                 = (if selectedMaturityIndex (objects st ! (data st ! rowIndex)) = maturityIndex then None
                    else Some (newScore_of (maturities (objects st ! (data st ! rowIndex))) maturityIndex
                                 maturityText))))"
proof -
  let ?row = "data st ! rowIndex"
  let ?new = "newScore_of (maturities (objects st ! ?row)) maturityIndex maturityText"
  let ?t = "toggle_row (objects st ! ?row) maturityIndex ?new"
  let ?h = "(objects st)[?row := ?t]"
  let ?a = "length (objects st) + rowIndex"
  have hrow: "?h ! ?row = ?t" using valid by simp
  from run idx obtain res where
    calc: "calculateHierarchyScores localeCompare fuel ?h (data st) = Some res"
    by (auto simp: handleMaturityClick_def Let_def split: option.splits)
  let ?copy = "err = None \<longrightarrow>
          ?a \<in> set (data st')
          \<and> selectedMaturityIndex (objects st' ! ?a)
              = (if selectedMaturityIndex (objects st ! ?row) = maturityIndex then -1 else maturityIndex)
          \<and> (children (objects st' ! ?a) = [] \<longrightarrow>
               Score (objects st' ! ?a)
                 = (if selectedMaturityIndex (objects st ! ?row) = maturityIndex then None else Some ?new))"
  have both: "objects st' ! ?row = ?t \<and> ?copy"
  proof (cases res)
    case (Inl thrown)
    obtain e hx where t: "thrown = (e, hx)" by (cases thrown)
    from run idx calc Inl t have st': "st' = st\<lparr>objects := hx\<rparr>" and e: "err = Some e"
      by (simp_all add: handleMaturityClick_def Let_def)
    from calculateHierarchyScores_throw[of localeCompare fuel ?h "data st" e hx] calc Inl t
    have "\<forall>a<length ?h. hx ! a = ?h ! a" by simp
    then have "objects st' ! ?row = ?t" using valid hrow st' by simp
    with e show ?thesis by simp
  next
    case (Inr r)
    obtain h' out where r: "r = (h', out)" by (cases r)
    from calc Inr r have calc': "calculateHierarchyScores localeCompare fuel ?h (data st) = Some (Inr (h', out))"
      by simp
    from run idx calc' have st': "st' = st\<lparr>objects := h', data := out\<rparr>"
      by (simp add: handleMaturityClick_def Let_def)
    from calculateHierarchyScores_copies[OF calc']
    have m: "mset out = mset [length ?h..<length ?h + length (data st)]"
      and fr: "\<forall>i<length (data st). same_frame (?h ! (data st ! i)) (h' ! (length ?h + i))"
      and old: "\<forall>a<length ?h. h' ! a = ?h ! a"
      by blast+
    have "set out = set_mset (mset [length ?h..<length ?h + length (data st)])"
      using m by (metis set_mset_mset)
    then have 1: "?a \<in> set (data st')" using idx st' by simp
    have 2: "objects st' ! ?row = ?t" using old valid hrow st' by simp
    have "same_frame ?t (h' ! ?a)" using fr idx hrow by (metis length_list_update)
    then have 3: "selectedMaturityIndex (objects st' ! ?a)
            = (if selectedMaturityIndex (objects st ! ?row) = maturityIndex then -1 else maturityIndex)"
      using st' by (simp add: same_frame_def toggle_row_def)
    have 4: "Score (objects st' ! ?a)
              = (if selectedMaturityIndex (objects st ! ?row) = maturityIndex then None else Some ?new)"
      if leaf: "children (objects st' ! ?a) = []"
    proof -
      from leaf st' have "children (h' ! (length ?h + rowIndex)) = []" by simp
      from calculateHierarchyScores_leaf_Score[OF calc' idx this] hrow st'
      show ?thesis by (simp add: toggle_row_def)
    qed
    from 1 2 3 4 show ?thesis by blast
  qed
  then have clicked: "objects st' ! ?row = ?t" and copy: ?copy by blast+
  from clicked have clicked_sel: "selectedMaturityIndex (objects st' ! ?row)
          = (if selectedMaturityIndex (objects st ! ?row) = maturityIndex then -1 else maturityIndex)"
    and clicked_score: "Score (objects st' ! ?row)
          = (if selectedMaturityIndex (objects st ! ?row) = maturityIndex then None else Some ?new)"
    by (simp_all add: toggle_row_def)
  from clicked_sel clicked_score copy show ?thesis by blast
qed


lemma handleMaturityClick_copy_weight:
  assumes run: "handleMaturityClick localeCompare fuel st rowIndex maturityIndex totalMaturities maturityText
                  = Some (st', None)"
    and idx: "rowIndex < length (data st)"
    and valid: "data st ! rowIndex < length (objects st)"
  shows "Calculated_Weights (objects st' ! (length (objects st) + rowIndex))
           = Calculated_Weights (objects st ! (data st ! rowIndex))"
proof -
  let ?row = "data st ! rowIndex"
  let ?t = "toggle_row (objects st ! ?row) maturityIndex
              (newScore_of (maturities (objects st ! ?row)) maturityIndex maturityText)"
  let ?h = "(objects st)[?row := ?t]"
  from run idx obtain h' out where
    calc: "calculateHierarchyScores localeCompare fuel ?h (data st) = Some (Inr (h', out))"
    and st': "st' = st\<lparr>objects := h', data := out\<rparr>"
    by (auto simp: handleMaturityClick_def Let_def split: option.splits sum.splits prod.splits)
  from calculateHierarchyScores_copies[OF calc]
  have "\<forall>i<length (data st). same_frame (?h ! (data st ! i)) (h' ! (length ?h + i))" by blast
  with idx have "same_frame (?h ! ?row) (h' ! (length ?h + rowIndex))" by blast
  with valid st' show ?thesis by (simp add: same_frame_def toggle_row_def)
qed

text \<open>
  Claim C4. A click on a maturity button of a row of the table. With more fuel than the
  longest id has characters \<open>handleMaturityClick\<close> produces a result, and in it: after
  a click on the selected index the clicked row object has no selection
  (\<open>selectedMaturityIndex = -1\<close>) and an absent score, and after a click on any other
  index its \<open>selectedMaturityIndex\<close> is the clicked index and its score is
  \<open>newScore\<close>. When nothing is thrown, the fresh copy of the row is in the new
  \<open>data\<close> with the same \<open>selectedMaturityIndex\<close>, and, when it is without children
  (the button is shown for such rows only), with the same score; and the loop over the
  children of a parent, on any heap that holds this copy, passes over a cleared row
  leaving both \<open>weightedSum\<close> and \<open>weightTotal\<close> as they are (the row is excluded
  from the rollup), whereas a row that was set adds \<open>newScore\<close> times its weight to
  \<open>weightedSum\<close> and its weight to \<open>weightTotal\<close>.
\<close>

theorem handleMaturityClick_toggle:
  assumes idx: "rowIndex < length (data st)"
    and valid: "data st ! rowIndex < length (objects st)"
    and fuel: "\<forall>d\<in>set (data st). length (CID (objects st ! d)) < fuel"
  shows "\<exists>st' err.
     handleMaturityClick localeCompare fuel st rowIndex maturityIndex totalMaturities maturityText
       = Some (st', err)
     \<and> selectedMaturityIndex (objects st' ! (data st ! rowIndex))
          = (if selectedMaturityIndex (objects st ! (data st ! rowIndex)) = maturityIndex then -1
             else maturityIndex)
     \<and> Score (objects st' ! (data st ! rowIndex))
          = (if selectedMaturityIndex (objects st ! (data st ! rowIndex)) = maturityIndex then None
             else Some (newScore_of (maturities (objects st ! (data st ! rowIndex))) maturityIndex
                          maturityText))
     \<and> (err = None \<longrightarrow>
          length (objects st) + rowIndex \<in> set (data st')
          \<and> selectedMaturityIndex (objects st' ! (length (objects st) + rowIndex))
              = (if selectedMaturityIndex (objects st ! (data st ! rowIndex)) = maturityIndex then -1
                 else maturityIndex)
          \<and> (children (objects st' ! (length (objects st) + rowIndex)) = [] \<longrightarrow>
               Score (objects st' ! (length (objects st) + rowIndex))
                 = (if selectedMaturityIndex (objects st ! (data st ! rowIndex)) = maturityIndex then None
                    else Some (newScore_of (maturities (objects st ! (data st ! rowIndex))) maturityIndex
                                 maturityText))
               \<and> (\<forall>h f rest weightedSum weightTotal.
                     h ! (length (objects st) + rowIndex) = objects st' ! (length (objects st) + rowIndex)
                     \<longrightarrow> forEach_child (Suc f) ((length (objects st) + rowIndex) # rest)
                               (h, weightedSum, weightTotal)
                         = (if selectedMaturityIndex (objects st ! (data st ! rowIndex)) = maturityIndex
                            then forEach_child (Suc f) rest (h, weightedSum, weightTotal)
                            else forEach_child (Suc f) rest
                                   (h, weightedSum
                                         + newScore_of (maturities (objects st ! (data st ! rowIndex)))
                                             maturityIndex maturityText
                                           * Calculated_Weights (objects st ! (data st ! rowIndex)),
                                       weightTotal
                                         + Calculated_Weights (objects st ! (data st ! rowIndex)))))))"
proof -
  let ?row = "data st ! rowIndex"
  let ?a = "length (objects st) + rowIndex"
  let ?new = "newScore_of (maturities (objects st ! ?row)) maturityIndex maturityText"
  from handleMaturityClick_total[OF fuel, of localeCompare rowIndex maturityIndex totalMaturities maturityText]
  obtain st' err where
    run: "handleMaturityClick localeCompare fuel st rowIndex maturityIndex totalMaturities maturityText
            = Some (st', err)"
    by blast
  let ?sel = "if selectedMaturityIndex (objects st ! ?row) = maturityIndex then -1 else maturityIndex"
  let ?score = "if selectedMaturityIndex (objects st ! ?row) = maturityIndex then None else Some ?new"
  let ?X = "\<lambda>h f rest weightedSum weightTotal.
              forEach_child (Suc f) (?a # rest) (h, weightedSum, weightTotal)
                = (if selectedMaturityIndex (objects st ! ?row) = maturityIndex
                   then forEach_child (Suc f) rest (h, weightedSum, weightTotal)
                   else forEach_child (Suc f) rest
                          (h, weightedSum + ?new * Calculated_Weights (objects st ! ?row),
                              weightTotal + Calculated_Weights (objects st ! ?row)))"
  from handleMaturityClick_returned[OF run idx valid]
  have p1: "selectedMaturityIndex (objects st' ! ?row) = ?sel"
    and p2: "Score (objects st' ! ?row) = ?score"
    and p3: "err = None \<longrightarrow> ?a \<in> set (data st')
               \<and> selectedMaturityIndex (objects st' ! ?a) = ?sel
               \<and> (children (objects st' ! ?a) = [] \<longrightarrow> Score (objects st' ! ?a) = ?score)"
    by blast+
  have x: "?X h f rest weightedSum weightTotal"
    if e: "err = None" and leaf: "children (objects st' ! ?a) = []" and same: "h ! ?a = objects st' ! ?a"
    for h f rest weightedSum weightTotal
  proof -
    from handleMaturityClick_copy_weight[OF _ idx valid,
        of localeCompare fuel maturityIndex totalMaturities maturityText st'] run e
    have w: "Calculated_Weights (objects st' ! ?a) = Calculated_Weights (objects st ! ?row)"
      by simp
    from p3 e leaf have sc: "Score (objects st' ! ?a) = ?score" by blast
    show ?thesis
    proof (cases "selectedMaturityIndex (objects st ! ?row) = maturityIndex")
      case True
      with sc leaf same show ?thesis by simp
    next
      case False
      with sc leaf same w show ?thesis by (simp add: Let_def)
    qed
  qed
  have p4: "err = None \<longrightarrow> ?a \<in> set (data st')
               \<and> selectedMaturityIndex (objects st' ! ?a) = ?sel
               \<and> (children (objects st' ! ?a) = [] \<longrightarrow>
                    Score (objects st' ! ?a) = ?score
                    \<and> (\<forall>h f rest weightedSum weightTotal.
                          h ! ?a = objects st' ! ?a \<longrightarrow> ?X h f rest weightedSum weightTotal))"
  proof (intro impI conjI allI)
    assume "err = None"
    with p3 show "?a \<in> set (data st')" by blast
  next
    assume "err = None"
    with p3 show "selectedMaturityIndex (objects st' ! ?a) = ?sel" by blast
  next
    assume "err = None" "children (objects st' ! ?a) = []"
    with p3 show "Score (objects st' ! ?a) = ?score" by blast
  next
    fix h f rest weightedSum weightTotal
    assume "err = None" "children (objects st' ! ?a) = []" "h ! ?a = objects st' ! ?a"
    then show "?X h f rest weightedSum weightTotal" by (rule x)
  qed
  from run p1 p2 p4 show ?thesis by (intro exI[of _ st'] exI[of _ err] conjI)
qed

theorem handleMaturityClick_toggle_witness:
  "handleMaturityClick (\<lambda>a b. 0) 4 (example_state example_family [0, 1, 2]) 2 0 4 ''Level 1''
     = Some (example_state example_family_after [3, 4, 5], None)
   \<and> selectedMaturityIndex (example_family_after ! 2) = -1
   \<and> Score (example_family_after ! 2) = None
   \<and> selectedMaturityIndex (example_family_after ! 5) = -1
   \<and> Score (example_family_after ! 5) = None
   \<and> Score (example_family_after ! 3) = Some (1/2)
   \<and> forEach_child 1 [5] (example_family_after, 1/2, 1/2) = Some (example_family_after, 1/2, 1/2)
   \<and> handleMaturityClick (\<lambda>a b. 0) 4 (example_state example_family [0, 1, 2]) 2 1 4 ''Level 2''
     = Some (example_state example_family_set [3, 4, 5], None)
   \<and> selectedMaturityIndex (example_family_set ! 5) = 1
   \<and> Score (example_family_set ! 5) = Some 1"
proof -
  let ?s0 = "example_state example_family [0, 1, 2]"
  let ?s1 = "example_state example_family_after [3, 4, 5]"
  let ?s2 = "example_state example_family_set [3, 4, 5]"
  have len: "length (objects ?s0) = 3" and row: "data ?s0 ! 2 = 2"
    by (simp_all add: example_state_def example_family_def)
  have i: "2 < length (data ?s0)" by (simp add: example_state_def)
  have v: "data ?s0 ! 2 < length (objects ?s0)" by (simp add: example_state_def example_family_def)
  have f: "\<forall>d\<in>set (data ?s0). length (CID (objects ?s0 ! d)) < 4"
    by (simp add: example_state_def example_family_def example_row_def example_leaf_def)
  have sel: "selectedMaturityIndex (objects ?s0 ! 2) = 0"
    by (simp add: example_state_def example_family_def example_leaf_def)
  have r1: "handleMaturityClick (\<lambda>a b. 0) 4 ?s0 2 0 4 ''Level 1'' = Some (?s1, None)"
    by code_simp
  have o1: "objects ?s1 = example_family_after" by (simp add: example_state_def)
  have leaf1: "children (example_family_after ! 5) = []"
    by (simp add: example_family_after_def example_leaf_def)
  from handleMaturityClick_toggle[OF i v f, of "\<lambda>a b. 0" 0 4 "''Level 1''"] r1
  have a1: "selectedMaturityIndex (objects ?s1 ! (data ?s0 ! 2))
              = (if selectedMaturityIndex (objects ?s0 ! (data ?s0 ! 2)) = 0 then -1 else 0)"
    and a2: "Score (objects ?s1 ! (data ?s0 ! 2))
              = (if selectedMaturityIndex (objects ?s0 ! (data ?s0 ! 2)) = 0 then None
                 else Some (newScore_of (maturities (objects ?s0 ! (data ?s0 ! 2))) 0 ''Level 1''))"
    and a3: "selectedMaturityIndex (objects ?s1 ! (length (objects ?s0) + 2))
              = (if selectedMaturityIndex (objects ?s0 ! (data ?s0 ! 2)) = 0 then -1 else 0)"
    and a4: "children (objects ?s1 ! (length (objects ?s0) + 2)) = [] \<longrightarrow>
               Score (objects ?s1 ! (length (objects ?s0) + 2))
                 = (if selectedMaturityIndex (objects ?s0 ! (data ?s0 ! 2)) = 0 then None
                    else Some (newScore_of (maturities (objects ?s0 ! (data ?s0 ! 2))) 0 ''Level 1''))
               \<and> (\<forall>h f rest weightedSum weightTotal.
                     h ! (length (objects ?s0) + 2) = objects ?s1 ! (length (objects ?s0) + 2)
                     \<longrightarrow> forEach_child (Suc f) ((length (objects ?s0) + 2) # rest)
                               (h, weightedSum, weightTotal)
                         = (if selectedMaturityIndex (objects ?s0 ! (data ?s0 ! 2)) = 0
                            then forEach_child (Suc f) rest (h, weightedSum, weightTotal)
                            else forEach_child (Suc f) rest
                                   (h, weightedSum
                                         + newScore_of (maturities (objects ?s0 ! (data ?s0 ! 2))) 0 ''Level 1''
                                           * Calculated_Weights (objects ?s0 ! (data ?s0 ! 2)),
                                       weightTotal + Calculated_Weights (objects ?s0 ! (data ?s0 ! 2)))))"
    by auto
  from a1[unfolded row o1 sel] have c1: "selectedMaturityIndex (example_family_after ! 2) = -1"
    by simp
  from a2[unfolded row o1 sel] have c2: "Score (example_family_after ! 2) = None" by simp
  from a3[unfolded row len o1 sel] have c3: "selectedMaturityIndex (example_family_after ! 5) = -1"
    by simp
  from a4[unfolded row len o1 sel] leaf1 have c4: "Score (example_family_after ! 5) = None"
    and x: "\<forall>h f rest weightedSum weightTotal.
             h ! 5 = example_family_after ! 5
             \<longrightarrow> forEach_child (Suc f) (5 # rest) (h, weightedSum, weightTotal)
                 = forEach_child (Suc f) rest (h, weightedSum, weightTotal)"
    by simp_all
  have c5: "Score (example_family_after ! 3) = Some (1/2)"
    by (simp add: example_family_after_def example_row_def)
  from x[rule_format, of example_family_after 0 "[]" "1/2" "1/2"]
  have c6: "forEach_child 1 [5] (example_family_after, 1/2, 1/2) = Some (example_family_after, 1/2, 1/2)"
    by simp
  have r2: "handleMaturityClick (\<lambda>a b. 0) 4 ?s0 2 1 4 ''Level 2'' = Some (?s2, None)"
    by code_simp
  have o2: "objects ?s2 = example_family_set" by (simp add: example_state_def)
  have leaf2: "children (example_family_set ! 5) = []"
    by (simp add: example_family_set_def example_leaf_def)
  have new: "newScore_of (maturities (objects ?s0 ! 2)) 1 ''Level 2'' = 1"
    by code_simp
  from handleMaturityClick_toggle[OF i v f, of "\<lambda>a b. 0" 1 4 "''Level 2''"] r2
  have b3: "selectedMaturityIndex (objects ?s2 ! (length (objects ?s0) + 2))
              = (if selectedMaturityIndex (objects ?s0 ! (data ?s0 ! 2)) = 1 then -1 else 1)"
    and b4: "children (objects ?s2 ! (length (objects ?s0) + 2)) = [] \<longrightarrow>
               Score (objects ?s2 ! (length (objects ?s0) + 2))
                 = (if selectedMaturityIndex (objects ?s0 ! (data ?s0 ! 2)) = 1 then None
                    else Some (newScore_of (maturities (objects ?s0 ! (data ?s0 ! 2))) 1 ''Level 2''))"
    by auto
  from b3[unfolded row len o2 sel] have d1: "selectedMaturityIndex (example_family_set ! 5) = 1"
    by simp
  from b4[unfolded row len o2 sel new] leaf2 have d2: "Score (example_family_set ! 5) = Some 1"
    by simp
  from r1 c1 c2 c3 c4 c5 c6 r2 d1 d2 show ?thesis by blast
qed

section \<open>The layout of the chart\<close>

lemma hierarchy_weight: "weight (node_data (fields_of (hierarchy dep t))) = weight (datum_of t)"
  by (cases t) simp

lemma hierarchy_nonneg_w: "nonneg_weights t \<Longrightarrow> nonneg_w (hierarchy dep t)"
  by (induction dep t rule: hierarchy.induct) (simp add: hierarchy_weight)

lemma absoluteWeights_weight:
  "weight (node_data (fields_of (absoluteWeights aw t))) = weight (node_data (fields_of t))"
  by (cases t) simp

lemma absoluteWeights_nonneg: "0 \<le> aw \<Longrightarrow> nonneg_w t \<Longrightarrow> nonneg_aw (absoluteWeights aw t)"
  by (induction aw t rule: absoluteWeights.induct) simp

lemma sum_values_valued: "nonneg_aw t \<Longrightarrow> valued (sum_values t)"
proof (induction t rule: sum_values.induct)
  case (1 f ks)
  have kids: "\<forall>k\<in>set ks. valued (sum_values k)" using 1 by simp
  have s: "map ((\<lambda>k. node_value (fields_of k)) \<circ> sum_values) ks = map (leaf_sum \<circ> sum_values) ks"
  proof (rule map_cong[OF refl])
    fix c assume "c \<in> set ks"
    with kids have "valued (sum_values c)" by simp
    then show "((\<lambda>k. node_value (fields_of k)) \<circ> sum_values) c = (leaf_sum \<circ> sum_values) c"
      by (cases "sum_values c") simp
  qed
  have nn: "0 \<le> sum_list (map leaf_sum (map sum_values ks))"
  proof (rule sum_list_nonneg)
    fix x assume "x \<in> set (map leaf_sum (map sum_values ks))"
    then obtain c where c: "c \<in> set ks" "x = leaf_sum (sum_values c)" by auto
    with kids have "valued (sum_values c)" by simp
    then show "0 \<le> x" using c(2) by (cases "sum_values c") simp
  qed
  show ?case using 1(2) kids nn by (simp add: Let_def s)
qed

lemma set_sort_by: "set (sort_by cmp xs) = set xs"
  using mset_sort_by[of cmp xs] by (metis set_mset_mset)

lemma sum_list_sort_by:
  fixes f :: "'a \<Rightarrow> rat"
  shows "sum_list (map f (sort_by cmp xs)) = sum_list (map f xs)"
proof -
  have "mset (map f (sort_by cmp xs)) = mset (map f xs)" by (simp add: mset_sort_by)
  then show ?thesis by (metis sum_mset_sum_list)
qed

lemma sort_by_Nil: "sort_by cmp xs = [] \<longleftrightarrow> xs = []"
  using mset_sort_by[of cmp xs] by (metis mset_zero_iff)

lemma sort_nodes_fields: "fields_of (sort_nodes t) = fields_of t"
  by (cases t) simp

lemma sort_nodes_leaf_sum: "leaf_sum (sort_nodes t) = leaf_sum t"
proof (induction t rule: sort_nodes.induct)
  case (1 f ks)
  have "map leaf_sum (map sort_nodes ks) = map leaf_sum ks" using 1 by simp
  then have "sum_list (map leaf_sum (map sort_nodes ks)) = sum_list (map leaf_sum ks)" by metis
  then show ?case by (simp add: sum_list_sort_by sort_by_Nil)
qed

lemma sort_nodes_valued: "valued t \<Longrightarrow> valued (sort_nodes t)"
proof (induction t rule: sort_nodes.induct)
  case (1 f ks)
  have kids: "\<forall>k\<in>set ks. valued (sort_nodes k)" using 1 by simp
  have "leaf_sum (sort_nodes (Node f ks)) = leaf_sum (Node f ks)" by (rule sort_nodes_leaf_sum)
  moreover have "node_value f = leaf_sum (Node f ks)" "0 \<le> node_value f" using 1(2) by simp_all
  ultimately have "node_value f = leaf_sum (sort_nodes (Node f ks))" by simp
  then show ?case using kids \<open>0 \<le> node_value f\<close> by (simp add: set_sort_by del: leaf_sum.simps)
qed

lemma sorted_insert_by:
  fixes v :: "'a \<Rightarrow> rat"
  shows "sorted_wrt (\<lambda>a b. v b \<le> v a) xs \<Longrightarrow> sorted_wrt (\<lambda>a b. v b \<le> v a) (insert_by (\<lambda>a b. v b - v a) x xs)"
proof (induction xs)
  case Nil
  then show ?case by simp
next
  case (Cons y ys)
  have set_ins: "set (insert_by (\<lambda>a b. v b - v a) x ys) = insert x (set ys)"
    using mset_insert_by[of "\<lambda>a b. v b - v a" x ys] by (metis set_mset_add_mset_insert set_mset_mset)
  show ?case
  proof (cases "v y - v x \<le> 0")
    case True
    with Cons.prems show ?thesis by auto
  next
    case False
    with Cons show ?thesis by (auto simp: set_ins)
  qed
qed

lemma sorted_sort_by:
  fixes v :: "'a \<Rightarrow> rat"
  shows "sorted_wrt (\<lambda>a b. v b \<le> v a) (sort_by (\<lambda>a b. v b - v a) xs)"
  unfolding sort_by_def by (induction xs) (simp_all add: sorted_insert_by)

lemma sort_nodes_descending: "descending (sort_nodes t)"
proof (induction t rule: sort_nodes.induct)
  case (1 f ks)
  have "sorted_wrt (\<lambda>a b. node_value (fields_of b) \<le> node_value (fields_of a))
          (sort_by (\<lambda>a b. node_value (fields_of b) - node_value (fields_of a)) (map sort_nodes ks))"
    by (rule sorted_sort_by)
  with 1 show ?case by (simp add: set_sort_by)
qed

lemma treemapDice_length: "length (treemapDice n k x ya yb ks) = length ks"
proof (induction ks arbitrary: x)
  case Nil
  then show ?case by simp
next
  case (Cons c cs)
  then show ?case by (cases c) simp
qed

lemma treemapDice_Nil: "treemapDice n k x ya yb ks = [] \<longleftrightarrow> ks = []"
  using treemapDice_length[of n k x ya yb ks] by (metis length_0_conv)

lemma positionNode_Node:
  "\<exists>f'. positionNode n (Node f ks)
          = Node f' (treemapDice n (dice_factor f) (x0 f) (of_nat (depth f + 1) / of_nat n)
                       (of_nat (depth f + 2) / of_nat n) ks)
        \<and> node_value f' = node_value f \<and> node_data f' = node_data f
        \<and> (x0 f \<le> x1 f \<longrightarrow> x0 f' = x0 f \<and> x1 f' = x1 f)"
  by (simp add: Let_def)

lemma positionNode_values:
  "node_value (fields_of (positionNode n t)) = node_value (fields_of t)
     \<and> leaf_sum (positionNode n t) = leaf_sum t"
  "map (\<lambda>c. node_value (fields_of c)) (treemapDice n k x ya yb ks) = map (\<lambda>c. node_value (fields_of c)) ks
     \<and> map leaf_sum (treemapDice n k x ya yb ks) = map leaf_sum ks"
proof (induction n t and n k x ya yb ks rule: positionNode_treemapDice.induct)
  case (1 n f ks)
  then show ?case by (simp add: Let_def treemapDice_Nil)
next
  case (2 n k x ya yb)
  then show ?case by simp
next
  case (3 n k x ya yb f ks rest)
  then show ?case by simp
qed

lemma valued_cong:
  assumes "valued (Node f ks)" "node_value f' = node_value f" "node_data f' = node_data f"
    "map leaf_sum ks' = map leaf_sum ks" "ks' = [] \<longleftrightarrow> ks = []" "\<forall>c\<in>set ks'. valued c"
  shows "valued (Node f' ks')"
  using assms by simp

lemma descending_cong:
  assumes "descending (Node f ks)"
    "map (\<lambda>c. node_value (fields_of c)) ks' = map (\<lambda>c. node_value (fields_of c)) ks"
    "\<forall>c\<in>set ks'. descending c"
  shows "descending (Node f' ks')"
proof -
  have "sorted_wrt (\<lambda>a b. node_value (fields_of b) \<le> node_value (fields_of a)) ks"
    using assms(1) by simp
  then have "sorted_wrt (\<lambda>a b. b \<le> a) (map (\<lambda>c. node_value (fields_of c)) ks)"
    by (simp add: sorted_wrt_map)
  then have "sorted_wrt (\<lambda>a b. b \<le> a) (map (\<lambda>c. node_value (fields_of c)) ks')"
    using assms(2) by simp
  then have "sorted_wrt (\<lambda>a b. node_value (fields_of b) \<le> node_value (fields_of a)) ks'"
    by (simp add: sorted_wrt_map)
  with assms(3) show ?thesis by simp
qed

lemma positionNode_valued:
  "valued t \<Longrightarrow> valued (positionNode n t)"
  "\<forall>c\<in>set ks. valued c \<Longrightarrow> \<forall>c\<in>set (treemapDice n k x ya yb ks). valued c"
proof (induction n t and n k x ya yb ks rule: positionNode_treemapDice.induct)
  case (1 n f ks)
  from positionNode_Node[of n f ks] obtain f' where
    pn: "positionNode n (Node f ks)
          = Node f' (treemapDice n (dice_factor f) (x0 f) (of_nat (depth f + 1) / of_nat n)
                       (of_nat (depth f + 2) / of_nat n) ks)"
    and f': "node_value f' = node_value f" "node_data f' = node_data f"
    by blast
  from 1(2) have "\<forall>c\<in>set ks. valued c" by simp
  with 1(1) have kids: "\<forall>c\<in>set (treemapDice n (dice_factor f) (x0 f) (of_nat (depth f + 1) / of_nat n)
                       (of_nat (depth f + 2) / of_nat n) ks). valued c"
    by simp
  show ?case
    unfolding pn using 1(2) f' _ _ kids
    by (rule valued_cong) (simp_all add: positionNode_values(2) treemapDice_Nil)
next
  case (2 n k x ya yb)
  then show ?case by simp
next
  case (3 n k x ya yb f ks rest)
  from 3(3) have v: "valued (Node f ks)" and r: "\<forall>c\<in>set rest. valued c" by simp_all
  from v have "valued (Node (f\<lparr>x0 := x, x1 := x + node_value f * k, y0 := ya, y1 := yb\<rparr>) ks)"
    by simp
  from 3(1)[OF this] 3(2)[OF r] show ?case by (simp del: positionNode.simps)
qed

lemma positionNode_descending:
  "descending t \<Longrightarrow> descending (positionNode n t)"
  "\<forall>c\<in>set ks. descending c \<Longrightarrow> \<forall>c\<in>set (treemapDice n k x ya yb ks). descending c"
proof (induction n t and n k x ya yb ks rule: positionNode_treemapDice.induct)
  case (1 n f ks)
  from positionNode_Node[of n f ks] obtain f' where
    pn: "positionNode n (Node f ks)
          = Node f' (treemapDice n (dice_factor f) (x0 f) (of_nat (depth f + 1) / of_nat n)
                       (of_nat (depth f + 2) / of_nat n) ks)"
    by blast
  from 1(2) have "\<forall>c\<in>set ks. descending c" by simp
  with 1(1) have kids: "\<forall>c\<in>set (treemapDice n (dice_factor f) (x0 f) (of_nat (depth f + 1) / of_nat n)
                       (of_nat (depth f + 2) / of_nat n) ks). descending c"
    by simp
  show ?case
    unfolding pn using 1(2) _ kids
    by (rule descending_cong) (simp add: positionNode_values(2))
next
  case (2 n k x ya yb)
  then show ?case by simp
next
  case (3 n k x ya yb f ks rest)
  from 3(3) have v: "descending (Node f ks)" and r: "\<forall>c\<in>set rest. descending c" by simp_all
  from v have "descending (Node (f\<lparr>x0 := x, x1 := x + node_value f * k, y0 := ya, y1 := yb\<rparr>) ks)"
    by simp
  from 3(1)[OF this] 3(2)[OF r] show ?case by (simp del: positionNode.simps)
qed

lemma dice_factor_nonneg: "0 \<le> node_value f \<Longrightarrow> x0 f \<le> x1 f \<Longrightarrow> 0 \<le> dice_factor f"
  by (simp add: dice_factor_def)

lemma positionNode_spanned:
  "valued t \<Longrightarrow> x0 (fields_of t) \<le> x1 (fields_of t)
     \<Longrightarrow> spanned (positionNode n t) \<and> x0 (fields_of (positionNode n t)) = x0 (fields_of t)
         \<and> x1 (fields_of (positionNode n t)) = x1 (fields_of t)"
  "\<forall>c\<in>set ks. valued c \<Longrightarrow> 0 \<le> k
     \<Longrightarrow> spans_from x k (treemapDice n k x ya yb ks) \<and> (\<forall>c\<in>set (treemapDice n k x ya yb ks). spanned c)"
proof (induction n t and n k x ya yb ks rule: positionNode_treemapDice.induct)
  case (1 n f ks)
  let ?ks' = "treemapDice n (dice_factor f) (x0 f) (of_nat (depth f + 1) / of_nat n)
                       (of_nat (depth f + 2) / of_nat n) ks"
  from 1(3) have le: "x0 f \<le> x1 f" by simp
  from positionNode_Node[of n f ks] le obtain f' where
    pn: "positionNode n (Node f ks) = Node f' ?ks'"
    and f': "node_value f' = node_value f" "x0 f' = x0 f" "x1 f' = x1 f"
    by blast
  from 1(2) have kids: "\<forall>c\<in>set ks. valued c" and nn: "0 \<le> node_value f" by simp_all
  have k: "0 \<le> dice_factor f" using nn le by (rule dice_factor_nonneg)
  from 1(1) kids k have "spans_from (x0 f) (dice_factor f) ?ks' \<and> (\<forall>c\<in>set ?ks'. spanned c)"
    by simp
  moreover have "dice_factor f' = dice_factor f" using f' by (simp add: dice_factor_def)
  ultimately show ?case unfolding pn using f' by simp
next
  case (2 n k x ya yb)
  then show ?case by simp
next
  case (3 n k x ya yb f ks rest)
  let ?fu = "f\<lparr>x0 := x, x1 := x + node_value f * k, y0 := ya, y1 := yb\<rparr>"
  from 3(3) have v: "valued (Node f ks)" and r: "\<forall>c\<in>set rest. valued c" by simp_all
  from v have vu: "valued (Node ?fu ks)" and nn: "0 \<le> node_value f" by simp_all
  have "0 \<le> node_value f * k" using nn 3(4) by simp
  then have le: "x0 (fields_of (Node ?fu ks)) \<le> x1 (fields_of (Node ?fu ks))" by simp
  from 3(1)[OF vu le]
  have sp: "spanned (positionNode n (Node ?fu ks))"
    and a: "x0 (fields_of (positionNode n (Node ?fu ks))) = x"
    and b: "x1 (fields_of (positionNode n (Node ?fu ks))) = x + node_value f * k"
    by simp_all
  have nv: "node_value (fields_of (positionNode n (Node ?fu ks))) = node_value f"
    using positionNode_values(1)[of n "Node ?fu ks"] by simp
  from 3(2)[OF r 3(4)] sp a b nv show ?case by (simp del: positionNode.simps)
qed

lemma spanned_first:
  "spanned t \<Longrightarrow> node_children t \<noteq> [] \<Longrightarrow> x0 (fields_of (node_children t ! 0)) = x0 (fields_of t)"
  by (cases t; cases "node_children t") auto

lemma descending_first_two:
  "descending t \<Longrightarrow> 1 < length (node_children t)
     \<Longrightarrow> node_value (fields_of (node_children t ! 1)) \<le> node_value (fields_of (node_children t ! 0))"
proof (cases t)
  case (Node f ks)
  assume d: "descending t" and l: "1 < length (node_children t)"
  from l Node obtain a b rest where ks: "ks = a # b # rest"
    by (cases ks; cases "tl ks") auto
  with d Node show ?thesis by simp
qed

text \<open>Every stage of the layout keeps the rows: \<open>hierarchy\<close> and the absolute weights
  build the nodes from them, \<open>sum\<close> and the partition write other fields only, and the
  sort permutes the children of each node.\<close>

lemma list_all2_map_right:
  "(\<And>c k. c \<in> set cs \<Longrightarrow> k \<in> set ks \<Longrightarrow> P c k \<Longrightarrow> P c (g k)) \<Longrightarrow> list_all2 P cs ks
     \<Longrightarrow> list_all2 P cs (map g ks)"
  by (simp add: list_all2_map2) (erule list.rel_mono_strong, simp)

lemma list_all2_reorder_right:
  assumes "list_all2 P xs ys" "mset ys' = mset ys"
  shows "\<exists>xs'. mset xs' = mset xs \<and> list_all2 P xs' ys'"
proof -
  from assms(1) have "list_all2 (\<lambda>y x. P x y) ys xs" by (simp add: list_all2_conv_all_nth)
  from list_all2_reorder_left_invariance[OF this assms(2)]
  obtain xs' where "list_all2 (\<lambda>y x. P x y) ys' xs'" "mset xs' = mset xs" by blast
  then show ?thesis by (auto simp: list_all2_conv_all_nth)
qed

lemma arranges_hierarchy:
  "arranges aw dep t (absoluteWeights aw (hierarchy dep t))"
proof (induction dep t arbitrary: aw rule: hierarchy.induct)
  case (1 dep d cs)
  have "list_all2 (\<lambda>c k. arranges (aw * weight (datum_of c)) (dep + 1) c k) cs
          (map (\<lambda>k. absoluteWeights (aw * weight (node_data (fields_of k))) k) (map (hierarchy (dep + 1)) cs))"
    unfolding list_all2_map2 using 1
    by (intro list_all2_all_nthI) (simp_all add: hierarchy_weight)
  then show ?case by auto
qed

lemma arranges_fields:
  "node_data f' = node_data f \<Longrightarrow> depth f' = depth f
     \<Longrightarrow> arranges aw dep t (Node f' ks) = arranges aw dep t (Node f ks)"
  by (cases t) simp

lemma arranges_children:
  assumes "arranges aw dep (DNode d cs) (Node f ks)"
    and "\<And>cs'. mset cs' = mset cs
            \<Longrightarrow> list_all2 (\<lambda>c k. arranges (aw * weight (datum_of c)) (dep + 1) c k) cs' ks
            \<Longrightarrow> \<exists>cs''. mset cs'' = mset cs
                  \<and> list_all2 (\<lambda>c k. arranges (aw * weight (datum_of c)) (dep + 1) c k) cs'' ks'"
    and "node_data f' = node_data f" "depth f' = depth f"
  shows "arranges aw dep (DNode d cs) (Node f' ks')"
proof -
  from assms(1) obtain cs' where "mset cs' = mset cs"
    "list_all2 (\<lambda>c k. arranges (aw * weight (datum_of c)) (dep + 1) c k) cs' ks"
    by auto
  from assms(2)[OF this] assms(1,3,4) show ?thesis by simp
qed

lemma arranges_sum_values: "arranges aw dep t n \<Longrightarrow> arranges aw dep t (sum_values n)"
proof (induction n arbitrary: aw dep t rule: sum_values.induct)
  case (1 f ks)
  obtain d cs where t: "t = DNode d cs" by (cases t)
  have "arranges aw dep (DNode d cs)
          (Node (f\<lparr>node_value := (if ks = [] then absoluteWeight (node_data f) else 0)
                     + sum_list (map (\<lambda>k. node_value (fields_of k)) (map sum_values ks))\<rparr>)
                (map sum_values ks))"
  proof (rule arranges_children[of aw dep d cs f ks])
    show "arranges aw dep (DNode d cs) (Node f ks)" using 1(2) t by simp
  next
    fix cs' assume "mset cs' = mset cs"
      and l: "list_all2 (\<lambda>c k. arranges (aw * weight (datum_of c)) (dep + 1) c k) cs' ks"
    have "list_all2 (\<lambda>c k. arranges (aw * weight (datum_of c)) (dep + 1) c k) cs' (map sum_values ks)"
      using _ l by (rule list_all2_map_right) (rule 1(1))
    with \<open>mset cs' = mset cs\<close>
    show "\<exists>cs''. mset cs'' = mset cs
            \<and> list_all2 (\<lambda>c k. arranges (aw * weight (datum_of c)) (dep + 1) c k) cs'' (map sum_values ks)"
      by blast
  qed simp_all
  then show ?case by (simp add: t Let_def del: arranges.simps)
qed

lemma arranges_sort_nodes: "arranges aw dep t n \<Longrightarrow> arranges aw dep t (sort_nodes n)"
proof (induction n arbitrary: aw dep t rule: sort_nodes.induct)
  case (1 f ks)
  obtain d cs where t: "t = DNode d cs" by (cases t)
  let ?ks' = "sort_by (\<lambda>a b. node_value (fields_of b) - node_value (fields_of a)) (map sort_nodes ks)"
  have "arranges aw dep (DNode d cs) (Node f ?ks')"
  proof (rule arranges_children[of aw dep d cs f ks])
    show "arranges aw dep (DNode d cs) (Node f ks)" using 1(2) t by simp
  next
    fix cs' assume m: "mset cs' = mset cs"
      and l: "list_all2 (\<lambda>c k. arranges (aw * weight (datum_of c)) (dep + 1) c k) cs' ks"
    have "list_all2 (\<lambda>c k. arranges (aw * weight (datum_of c)) (dep + 1) c k) cs' (map sort_nodes ks)"
      using _ l by (rule list_all2_map_right) (rule 1(1))
    from list_all2_reorder_right[OF this, of ?ks'] m
    show "\<exists>cs''. mset cs'' = mset cs
            \<and> list_all2 (\<lambda>c k. arranges (aw * weight (datum_of c)) (dep + 1) c k) cs'' ?ks'"
      by (auto simp: mset_sort_by)
  qed simp_all
  then show ?case by (simp add: t del: arranges.simps)
qed

lemma positionNode_Node_data:
  "\<exists>f'. positionNode n (Node f ks)
          = Node f' (treemapDice n (dice_factor f) (x0 f) (of_nat (depth f + 1) / of_nat n)
                       (of_nat (depth f + 2) / of_nat n) ks)
        \<and> node_data f' = node_data f \<and> depth f' = depth f"
  by (simp add: Let_def)

lemma arranges_positionNode:
  "arranges aw dep t n \<Longrightarrow> arranges aw dep t (positionNode m n)"
  "list_all2 (\<lambda>c k. arranges (A c) dep' c k) cs' ks
     \<Longrightarrow> list_all2 (\<lambda>c k. arranges (A c) dep' c k) cs' (treemapDice m k x ya yb ks)"
proof (induction m n and m k x ya yb ks arbitrary: aw dep t and A dep' cs'
       rule: positionNode_treemapDice.induct)
  case (1 m f ks)
  obtain d cs where t: "t = DNode d cs" by (cases t)
  from positionNode_Node_data[of m f ks] obtain f' where
    pn: "positionNode m (Node f ks)
          = Node f' (treemapDice m (dice_factor f) (x0 f) (of_nat (depth f + 1) / of_nat m)
                       (of_nat (depth f + 2) / of_nat m) ks)"
    and f': "node_data f' = node_data f" "depth f' = depth f"
    by blast
  have "arranges aw dep (DNode d cs)
          (Node f' (treemapDice m (dice_factor f) (x0 f) (of_nat (depth f + 1) / of_nat m)
                       (of_nat (depth f + 2) / of_nat m) ks))"
  proof (rule arranges_children[of aw dep d cs f ks])
    show "arranges aw dep (DNode d cs) (Node f ks)" using 1(2) t by simp
  next
    fix cs' assume m: "mset cs' = mset cs"
      and l: "list_all2 (\<lambda>c k. arranges (aw * weight (datum_of c)) (dep + 1) c k) cs' ks"
    from 1(1)[OF refl, of "\<lambda>c. aw * weight (datum_of c)" "dep + 1" cs'] l
    have "list_all2 (\<lambda>c k. arranges (aw * weight (datum_of c)) (dep + 1) c k) cs'
            (treemapDice m (dice_factor f) (x0 f) (of_nat (depth f + 1) / of_nat m)
                       (of_nat (depth f + 2) / of_nat m) ks)"
      by simp
    with m show "\<exists>cs''. mset cs'' = mset cs
            \<and> list_all2 (\<lambda>c k. arranges (aw * weight (datum_of c)) (dep + 1) c k) cs''
                 (treemapDice m (dice_factor f) (x0 f) (of_nat (depth f + 1) / of_nat m)
                       (of_nat (depth f + 2) / of_nat m) ks)"
      by blast
  qed (simp_all add: f')
  then show ?case unfolding pn t .
next
  case (2 m k x ya yb)
  then show ?case by simp
next
  case (3 m k x ya yb f ks rest)
  let ?fu = "f\<lparr>x0 := x, x1 := x + node_value f * k, y0 := ya, y1 := yb\<rparr>"
  from 3(3) obtain c cs'' where cs': "cs' = c # cs''"
    and c: "arranges (A c) dep' c (Node f ks)"
    and r: "list_all2 (\<lambda>c k. arranges (A c) dep' c k) cs'' rest"
    by (auto simp: list_all2_Cons2)
  have "arranges (A c) dep' c (Node ?fu ks)"
    using c arranges_fields[of ?fu f "A c" dep' c ks] by simp
  from 3(1)[OF this] 3(2)[OF r] cs' show ?case by (simp del: positionNode.simps)
qed

lemma arranges_layout: "arranges 1 0 rootData (layout rootData)"
proof -
  let ?t = "sort_nodes (sum_values (absoluteWeights 1 (hierarchy 0 rootData)))"
  let ?n = "height ?t + 1"
  let ?r = "Node ((fields_of ?t)\<lparr>x0 := 0, y0 := 0, x1 := 1, y1 := 1 / of_nat ?n\<rparr>) (node_children ?t)"
  have a: "arranges 1 0 rootData ?t"
    by (intro arranges_sort_nodes arranges_sum_values arranges_hierarchy)
  have "arranges 1 0 rootData ?r = arranges 1 0 rootData (Node (fields_of ?t) (node_children ?t))"
    by (rule arranges_fields) simp_all
  with a have "arranges 1 0 rootData ?r" by simp
  then have "arranges 1 0 rootData (positionNode ?n ?r)" by (rule arranges_positionNode(1))
  then show ?thesis by (simp add: layout_def partition_def Let_def)
qed

lemma arranges_length:
  "arranges aw dep t n \<Longrightarrow> length (node_children n) = length (dtree_children t)"
proof (cases t; cases n)
  fix d cs f ks assume t: "t = DNode d cs" and n: "n = Node f ks" and a: "arranges aw dep t n"
  then obtain cs' where "mset cs' = mset cs" "list_all2 (\<lambda>c k. arranges (aw * weight (datum_of c)) (dep + 1) c k) cs' ks"
    by auto
  then have "length cs = length cs'" "length cs' = length ks"
    by (metis size_mset, simp add: list_all2_lengthD)
  with t n show ?thesis by simp
qed

lemma arranges_root:
  "arranges aw dep t n
     \<Longrightarrow> name (node_data (fields_of n)) = name (datum_of t)
         \<and> weight (node_data (fields_of n)) = weight (datum_of t)
         \<and> score (node_data (fields_of n)) = score (datum_of t)
         \<and> absoluteWeight (node_data (fields_of n)) = aw \<and> depth (fields_of n) = dep"
  by (cases t; cases n) simp

text \<open>
  Claim C8, as stated, fails: the layout does not keep the siblings in their input order.
  Below the root the rows \<open>1\<close> (weight 0.3) and \<open>2\<close> (weight 0.7) come in this order,
  and the layout gives the first span, from 0 to 0.7, to \<open>2\<close> and the span from 0.7
  to 1 to \<open>1\<close>, because line 103 sorts the children of every node by descending value.
\<close>

theorem layout_input_order_counterexample:
  "name (datum_of (dtree_children example_rootData ! 0)) = ''1''
   \<and> name (datum_of (dtree_children example_rootData ! 1)) = ''2''
   \<and> name (node_data (fields_of (node_children (layout example_rootData) ! 0))) = ''2''
   \<and> x0 (fields_of (node_children (layout example_rootData) ! 0)) = 0
   \<and> x1 (fields_of (node_children (layout example_rootData) ! 0)) = 7/10
   \<and> name (node_data (fields_of (node_children (layout example_rootData) ! 1))) = ''1''
   \<and> x0 (fields_of (node_children (layout example_rootData) ! 1)) = 7/10
   \<and> x1 (fields_of (node_children (layout example_rootData) ! 1)) = 1"
  by code_simp

text \<open>
  Claim C8, amended. Numbers are taken as exact (rationals, no rounding). The laid-out
  hierarchy is the input tree with the children of every node rearranged
  (\<open>arranges\<close>): every node carries the name, weight and score of its row, its depth,
  and as absolute weight the product of the weights on its path from the root, and has
  the children of its row, each exactly once. For weights that are not negative the
  layout gives the root the whole span from 0 to 1 and, recursively, partitions the span
  of every node among its children in proportion to their values: the children lie one
  after the other from the parent's \<open>x0\<close>, each as wide as its value times the
  parent's width over the parent's value (\<open>spanned\<close>); the value of a node is the sum
  of the absolute weights of the leaves below it (\<open>valued\<close>); and the siblings come in
  descending order of value (\<open>descending\<close>), not in input order.
\<close>

theorem layout_partitions:
  assumes "nonneg_weights rootData"
  shows "arranges 1 0 rootData (layout rootData)
     \<and> x0 (fields_of (layout rootData)) = 0 \<and> x1 (fields_of (layout rootData)) = 1
     \<and> spanned (layout rootData) \<and> valued (layout rootData) \<and> descending (layout rootData)"
proof -
  let ?t = "sort_nodes (sum_values (absoluteWeights 1 (hierarchy 0 rootData)))"
  let ?n = "height ?t + 1"
  let ?r = "Node ((fields_of ?t)\<lparr>x0 := 0, y0 := 0, x1 := 1, y1 := 1 / of_nat ?n\<rparr>) (node_children ?t)"
  have "nonneg_aw (absoluteWeights 1 (hierarchy 0 rootData))"
    using assms by (intro absoluteWeights_nonneg hierarchy_nonneg_w) simp_all
  then have v: "valued ?t" by (intro sort_nodes_valued sum_values_valued)
  have d: "descending ?t" by (rule sort_nodes_descending)
  have vr: "valued ?r" using v by (cases ?t) simp
  have dr: "descending ?r" using d by (cases ?t) simp
  have le: "x0 (fields_of ?r) \<le> x1 (fields_of ?r)" by simp
  have l: "layout rootData = positionNode ?n ?r" by (simp add: layout_def partition_def Let_def)
  from positionNode_spanned(1)[OF vr le, of ?n] positionNode_valued(1)[OF vr, of ?n]
    positionNode_descending(1)[OF dr, of ?n]
  have "x0 (fields_of (layout rootData)) = 0 \<and> x1 (fields_of (layout rootData)) = 1
     \<and> spanned (layout rootData) \<and> valued (layout rootData) \<and> descending (layout rootData)"
    unfolding l by simp
  with arranges_layout[of rootData] show ?thesis by simp
qed

theorem layout_partitions_witness:
  "x0 (fields_of (layout example_rootData)) = 0 \<and> x1 (fields_of (layout example_rootData)) = 1
   \<and> length (node_children (layout example_rootData)) = 2
   \<and> absoluteWeight (node_data (fields_of (layout example_rootData))) = 1
   \<and> x0 (fields_of (node_children (layout example_rootData) ! 0)) = 0
   \<and> node_value (fields_of (node_children (layout example_rootData) ! 1))
        \<le> node_value (fields_of (node_children (layout example_rootData) ! 0))"
proof -
  have "nonneg_weights example_rootData" by code_simp
  from layout_partitions[OF this]
  have a: "arranges 1 0 example_rootData (layout example_rootData)"
    and r: "x0 (fields_of (layout example_rootData)) = 0" "x1 (fields_of (layout example_rootData)) = 1"
    and s: "spanned (layout example_rootData)" and d: "descending (layout example_rootData)"
    by blast+
  have "length (dtree_children example_rootData) = 2" by (simp add: example_rootData_def)
  with arranges_length[OF a] have l: "length (node_children (layout example_rootData)) = 2" by simp
  from arranges_root[OF a]
  have w: "absoluteWeight (node_data (fields_of (layout example_rootData))) = 1" by simp
  from l have ne: "node_children (layout example_rootData) \<noteq> []" by auto
  from spanned_first[OF s ne] r(1)
  have 1: "x0 (fields_of (node_children (layout example_rootData) ! 0)) = 0" by simp
  from descending_first_two[OF d] l
  have 2: "node_value (fields_of (node_children (layout example_rootData) ! 1))
        \<le> node_value (fields_of (node_children (layout example_rootData) ! 0))" by simp
  from r l w 1 2 show ?thesis by simp
qed

text \<open>
  Claim C2, as stated, fails. In the example the focus \<open>[1, 0]\<close> (row \<open>1.1\<close>, which has
  a child) is reached by a click on its arc. A click on the center indicator from there
  sets the focus to the root, whereas activating the parent of the focus, \<open>[1]\<close>
  (row \<open>1\<close>), sets the focus to that parent.
\<close>

theorem centerText_click_counterexample:
  "click (layout example_rootData) \<lparr>focus = []\<rparr> [1, 0] = Some \<lparr>focus = [1, 0]\<rparr>
   \<and> centerText_click (layout example_rootData) \<lparr>focus = [1, 0]\<rparr> = Some \<lparr>focus = []\<rparr>
   \<and> click (layout example_rootData) \<lparr>focus = [1, 0]\<rparr> (butlast [1, 0]) = Some \<lparr>focus = [1]\<rparr>"
  by code_simp

text \<open>
  Claim C2, amended. The handler of the center indicator activates the root, whatever
  the focus is: after the click the focus is the root. From a focus at depth at most one
  this is what activating the parent of the focus (or the root, at the root) gives; from
  the root the focus stays the root.
\<close>

theorem centerText_click_root:
  "centerText_click r z = Some (z\<lparr>focus := []\<rparr>)
   \<and> (length (focus z) \<le> 1 \<longrightarrow> centerText_click r z = click r z (butlast (focus z)))"
proof -
  have 1: "centerText_click r z = Some (z\<lparr>focus := []\<rparr>)"
    by (simp add: centerText_click_def click_def)
  have "butlast (focus z) = []" if "length (focus z) \<le> 1"
    using that by (cases "focus z") simp_all
  then show ?thesis using 1 by (simp add: centerText_click_def)
qed

theorem centerText_click_root_witness:
  "centerText_click (layout example_rootData) \<lparr>focus = [1]\<rparr> = Some \<lparr>focus = []\<rparr>
   \<and> click (layout example_rootData) \<lparr>focus = [1]\<rparr> (butlast [1]) = Some \<lparr>focus = []\<rparr>"
proof -
  have l: "length (focus \<lparr>focus = [1]\<rparr>) \<le> 1" by simp
  from centerText_click_root[of "layout example_rootData" "\<lparr>focus = [1]\<rparr>"] l
  have "centerText_click (layout example_rootData) \<lparr>focus = [1]\<rparr> = Some (\<lparr>focus = [1]\<rparr>\<lparr>focus := []\<rparr>)"
    and "centerText_click (layout example_rootData) \<lparr>focus = [1]\<rparr>
           = click (layout example_rootData) \<lparr>focus = [1]\<rparr> (butlast (focus \<lparr>focus = [1]\<rparr>))"
    by blast+
  then show ?thesis by simp
qed

section \<open>The order of the ids\<close>

lemma compare_segments_numeric:
  "list_all is_numeric xs \<Longrightarrow> list_all is_numeric ys
     \<Longrightarrow> (compare_segments xs ys < 0) = ((map number_of xs, map number_of ys) \<in> lexord {(x, y). x < y})"
  by (induction xs ys rule: compare_segments.induct) (auto simp: compare_segment_def)

text \<open>
  Claim C5. With the collation as the specification describes it, \<open>naturalSort\<close>
  compares the ids of two rows segment by segment (\<open>compare_segments\<close> over the ids
  split at the dots, a pair of numeric segments by their numbers and any other pair
  without regard to case); for ids of numeric segments it puts \<open>a\<close> before \<open>b\<close>
  exactly when the numbers of \<open>a\<close> come before those of \<open>b\<close> in the lexicographic
  order, a proper prefix first. So \<open>1.2\<close> sorts before \<open>1.10\<close>, \<open>1.10\<close> before \<open>2\<close>
  and \<open>1\<close> before \<open>1.1\<close>.
\<close>

theorem naturalSort_numeric_ids:
  "naturalSort localeCompare_numeric_base a b = compare_segments (split_dot (CID a)) (split_dot (CID b))
   \<and> (list_all is_numeric (split_dot (CID a)) \<and> list_all is_numeric (split_dot (CID b)) \<longrightarrow>
        (naturalSort localeCompare_numeric_base a b < 0)
          = ((map number_of (split_dot (CID a)), map number_of (split_dot (CID b))) \<in> lexord {(x, y). x < y}))"
  by (simp add: naturalSort_def localeCompare_numeric_base_def compare_segments_numeric)

theorem naturalSort_numeric_ids_witness:
  "naturalSort localeCompare_numeric_base (example_row ''1.2'' 0 None) (example_row ''1.10'' 0 None) < 0
   \<and> naturalSort localeCompare_numeric_base (example_row ''1.10'' 0 None) (example_row ''2'' 0 None) < 0
   \<and> naturalSort localeCompare_numeric_base (example_row ''1'' 0 None) (example_row ''1.1'' 0 None) < 0"
proof -
  have n: "list_all is_numeric (split_dot ''1.2'')" "list_all is_numeric (split_dot ''1.10'')"
    "list_all is_numeric (split_dot ''2'')" "list_all is_numeric (split_dot ''1'')"
    "list_all is_numeric (split_dot ''1.1'')"
    by code_simp+
  have v: "map number_of (split_dot ''1.2'') = [1, 2]" "map number_of (split_dot ''1.10'') = [1, 10]"
    "map number_of (split_dot ''2'') = [2]" "map number_of (split_dot ''1'') = [1]"
    "map number_of (split_dot ''1.1'') = [1, 1]"
    by code_simp+
  have 1: "naturalSort localeCompare_numeric_base (example_row ''1.2'' 0 None) (example_row ''1.10'' 0 None) < 0"
    using naturalSort_numeric_ids[of "example_row ''1.2'' 0 None" "example_row ''1.10'' 0 None"] n v
    by (simp add: example_row_def)
  have 2: "naturalSort localeCompare_numeric_base (example_row ''1.10'' 0 None) (example_row ''2'' 0 None) < 0"
    using naturalSort_numeric_ids[of "example_row ''1.10'' 0 None" "example_row ''2'' 0 None"] n v
    by (simp add: example_row_def)
  have 3: "naturalSort localeCompare_numeric_base (example_row ''1'' 0 None) (example_row ''1.1'' 0 None) < 0"
    using naturalSort_numeric_ids[of "example_row ''1'' 0 None" "example_row ''1.1'' 0 None"] n v
    by (simp add: example_row_def)
  from 1 2 3 show ?thesis by simp
qed


section \<open>Failed imports\<close>

text \<open>
  Claim C7. When the parser of the pasted text throws, or finds fewer than two columns,
  \<open>handlePaste\<close> changes nothing but the message, which becomes its one error message;
  when \<open>JSON.parse\<close> throws on the text of the file, \<open>loadJson\<close> changes nothing but
  the message, which becomes its one error message. The rows (\<open>data\<close> and the row
  objects) stay as they were.
\<close>

theorem failed_import_noop:
  "(parse_pasted hst (pasteText st) = Inl e
     \<or> (\<exists>p. parse_pasted hst (pasteText st) = Inr p \<and> length (columns p) < 2)
    \<longrightarrow> handlePaste hst fuel st = Some (st\<lparr>errorMsg := ''Failed to parse data. Check format.''\<rparr>))
   \<and> (JSON_parse hst result = Inl e'
    \<longrightarrow> loadJson_onload hst fuel st result = Some (st\<lparr>errorMsg := ''Error parsing JSON file''\<rparr>))"
  by (auto simp: handlePaste_def loadJson_onload_def)

theorem failed_import_noop_witness:
  "handlePaste example_host 0 ((example_state [example_leaf (Some 0) (-1)] [0])\<lparr>pasteText := ''hello''\<rparr>)
     = Some ((example_state [example_leaf (Some 0) (-1)] [0])
               \<lparr>pasteText := ''hello'', errorMsg := ''Failed to parse data. Check format.''\<rparr>)
   \<and> loadJson_onload example_host 0 (example_state [example_leaf (Some 0) (-1)] [0]) ''{not json''
     = Some ((example_state [example_leaf (Some 0) (-1)] [0])\<lparr>errorMsg := ''Error parsing JSON file''\<rparr>)"
proof -
  let ?st = "(example_state [example_leaf (Some 0) (-1)] [0])\<lparr>pasteText := ''hello''\<rparr>"
  have p: "parse_pasted example_host (pasteText ?st) = Inr \<lparr>columns = [''hello''], lines = []\<rparr>"
    by (simp add: parse_pasted_def example_host_def example_state_def)
  then have "\<exists>p. parse_pasted example_host (pasteText ?st) = Inr p \<and> length (columns p) < 2"
    by simp
  with failed_import_noop[where hst = example_host and st = ?st and fuel = 0]
  have 1: "handlePaste example_host 0 ?st = Some (?st\<lparr>errorMsg := ''Failed to parse data. Check format.''\<rparr>)"
    by blast
  have j: "JSON_parse example_host ''{not json'' = Inl SyntaxError" by (simp add: example_host_def)
  with failed_import_noop[where hst = example_host and fuel = 0 and result = "''{not json''"
      and st = "example_state [example_leaf (Some 0) (-1)] [0]" and e' = SyntaxError]
  have 2: "loadJson_onload example_host 0 (example_state [example_leaf (Some 0) (-1)] [0]) ''{not json''
     = Some ((example_state [example_leaf (Some 0) (-1)] [0])\<lparr>errorMsg := ''Error parsing JSON file''\<rparr>)"
    by blast
  from 1 2 show ?thesis by simp
qed

text \<open>
  Beside the claim: an import that parses and then fails in \<open>processRawData\<close> (here on
  the id \<open>constructor.1\<close>) leaves \<open>data\<close> as it was too, but \<open>handlePaste\<close> clears
  the message that \<open>processRawData\<close> has set, and the maturity headers are replaced.
\<close>

lemma handlePaste_clears_message:
  "handlePaste example_host_line fuel
     ((example_state [example_leaf (Some 0) (-1)] [0])\<lparr>pasteText := ''x'', pasteModalOpen := True\<rparr>)
   = Some ((example_state
              [example_leaf (Some 0) (-1),
               \<lparr>CID = ''constructor.1'', Criterion = ''a'', Calculated_Weights = 0, Score = Some 0,
                 maturities = [], selectedMaturityIndex = -1, children = []\<rparr>,
               \<lparr>CID = ''constructor.1'', Criterion = ''a'', Calculated_Weights = 0, Score = Some 0,
                 maturities = [], selectedMaturityIndex = -1, children = []\<rparr>] [0])
            \<lparr>maturityHeaders := []\<rparr>)"
  by code_simp

end
